theory Spec2Isabelle
  imports Main "HOL-Library.Word"
begin

section \<open>Python strings and bytes\<close>

text \<open>
  A Python \<open>str\<close> is a sequence of Unicode code points and a \<open>bytes\<close> object a
  sequence of octets. Code points are natural numbers (9 is the tab, 10 the line feed, 13
  the carriage return, 32 the space); ASCII literals are written with \<open>u\<close>.
\<close>

type_synonym str = "nat list"
type_synonym byte = "8 word"
type_synonym bytes = "byte list"

definition u :: "string \<Rightarrow> str" where
  "u s = map of_char s"

text \<open>\<open>str.isspace\<close> on one code point (the table of CPython's \<open>_PyUnicode_IsWhitespace\<close>).\<close>

definition is_whitespace :: "nat \<Rightarrow> bool" where
  "is_whitespace c \<longleftrightarrow>
     (9 \<le> c \<and> c \<le> 13) \<or> (28 \<le> c \<and> c \<le> 32) \<or> c = 133 \<or> c = 160 \<or> c = 5760 \<or>
     (8192 \<le> c \<and> c \<le> 8202) \<or> c = 8232 \<or> c = 8233 \<or> c = 8239 \<or> c = 8287 \<or> c = 12288"

text \<open>The line boundaries of \<open>str.splitlines\<close>.\<close>

definition is_linebreak :: "nat \<Rightarrow> bool" where
  "is_linebreak c \<longleftrightarrow>
     c = 10 \<or> c = 11 \<or> c = 12 \<or> c = 13 \<or> c = 28 \<or> c = 29 \<or> c = 30 \<or> c = 133 \<or>
     c = 8232 \<or> c = 8233"

text \<open>\<open>s.replace(old, new)\<close>: leftmost non-overlapping occurrences, left to right.\<close>

function replace :: "str \<Rightarrow> str \<Rightarrow> str \<Rightarrow> str" where
  "replace old new s =
     (if old = [] then new @ concat (map (\<lambda>c. c # new) s)
      else if s = [] then []
      else if take (length old) s = old then new @ replace old new (drop (length old) s)
      else hd s # replace old new (tl s))"
  by pat_completeness auto
termination
  by (relation "measure (\<lambda>(old, new, s). length s)") auto

declare replace.simps [simp del]

text \<open>\<open>s.splitlines()\<close>: \<open>cur\<close> is the line being read; \<open>\r\n\<close> is one boundary, and a
  final line is reported only when it is not empty.\<close>

fun splitlines_from :: "str \<Rightarrow> str \<Rightarrow> str list" where
  "splitlines_from cur [] = (if cur = [] then [] else [cur])"
| "splitlines_from cur [c] = (if is_linebreak c then [cur] else [cur @ [c]])"
| "splitlines_from cur (c # d # s) =
     (if c = 13 \<and> d = 10 then cur # splitlines_from [] s
      else if is_linebreak c then cur # splitlines_from [] (d # s)
      else splitlines_from (cur @ [c]) (d # s))"

definition splitlines :: "str \<Rightarrow> str list" where
  "splitlines s = splitlines_from [] s"

text \<open>\<open>s.strip()\<close>.\<close>

definition strip :: "str \<Rightarrow> str" where
  "strip s = rev (dropWhile is_whitespace (rev (dropWhile is_whitespace s)))"

text \<open>\<open>re.sub(r"[ \t]+", " ", line)\<close>: every maximal run of spaces and tabs becomes one space.\<close>

definition is_blank :: "nat \<Rightarrow> bool" where
  "is_blank c \<longleftrightarrow> c = 32 \<or> c = 9"

function re_sub_blanks :: "str \<Rightarrow> str" where
  "re_sub_blanks [] = []"
| "re_sub_blanks (c # s) =
     (if is_blank c then 32 # re_sub_blanks (dropWhile is_blank s)
      else c # re_sub_blanks s)"
  by pat_completeness auto
termination
  by (relation "measure length") (auto simp: length_dropWhile_le less_Suc_eq_le)

text \<open>\<open>sep.join(xs)\<close>.\<close>

fun join :: "str \<Rightarrow> str list \<Rightarrow> str" where
  "join sep [] = []"
| "join sep [x] = x"
| "join sep (x # y # xs) = x @ sep @ join sep (y # xs)"

section \<open>utils.py: cleaning\<close>

definition clean_line :: "str \<Rightarrow> str" where
  "clean_line line = strip (re_sub_blanks line)"

definition clean_text :: "str \<Rightarrow> str" where
  "clean_text text =
     (let text = replace [13] [10] (replace [13, 10] [10] text);
          cleaned_lines = filter (\<lambda>line. line \<noteq> []) (map clean_line (splitlines text))
      in join [10] cleaned_lines)"


text \<open>What the cleaning establishes: no run of two spaces, no white space at either end of a
  line, and per line no line boundary and no tab.\<close>

fun no_double_space :: "str \<Rightarrow> bool" where
  "no_double_space [] = True"
| "no_double_space [c] = True"
| "no_double_space (c # d # s) = (\<not> (c = 32 \<and> d = 32) \<and> no_double_space (d # s))"

definition trimmed :: "str \<Rightarrow> bool" where
  "trimmed l \<longleftrightarrow> l \<noteq> [] \<and> \<not> is_whitespace (hd l) \<and> \<not> is_whitespace (last l)"

definition tidy_line :: "str \<Rightarrow> bool" where
  "tidy_line l \<longleftrightarrow>
     trimmed l \<and> list_all (\<lambda>c. \<not> is_linebreak c \<and> c \<noteq> 9) l \<and> no_double_space l"

definition cleaned_lines :: "str \<Rightarrow> str list" where
  "cleaned_lines text =
     filter (\<lambda>line. line \<noteq> [])
       (map clean_line (splitlines (replace [13] [10] (replace [13, 10] [10] text))))"

section \<open>The environment of utils.py\<close>

subsection \<open>Errors\<close>

text \<open>The exceptions that leave the functions of the repository. \<open>LibraryError\<close> stands for
  an exception of pdfplumber or python-docx raised while parsing a document.\<close>

datatype error =
    FileNotFoundError str
  | IsADirectoryError str
  | ValueError str
  | ImportError str
  | LibraryError str
  | OperationalError str
  | UnicodeEncodeError str
  | OverflowError str
  | EOFError str
  | UnicodeDecodeError str

subsection \<open>Files\<close>

text \<open>The file system as the calls of the repository see it: what a path string resolves to.\<close>

datatype node = File bytes | Directory

type_synonym filesystem = "str \<Rightarrow> node option"

definition os_path_exists :: "filesystem \<Rightarrow> str \<Rightarrow> bool" where
  "os_path_exists fs p \<longleftrightarrow> fs p \<noteq> None"

text \<open>\<open>open(filepath, ...)\<close> followed by reading the whole file.\<close>

definition read_file :: "filesystem \<Rightarrow> str \<Rightarrow> error + bytes" where
  "read_file fs p =
     (case fs p of
        None \<Rightarrow> Inl (FileNotFoundError p)
      | Some Directory \<Rightarrow> Inl (IsADirectoryError p)
      | Some (File data) \<Rightarrow> Inr data)"

subsection \<open>\<open>os.path.splitext\<close> (POSIX) and \<open>str.lower\<close>\<close>

fun rfind_from :: "nat \<Rightarrow> nat \<Rightarrow> str \<Rightarrow> int \<Rightarrow> int" where
  "rfind_from c i [] found = found"
| "rfind_from c i (x # xs) found = rfind_from c (Suc i) xs (if x = c then int i else found)"

definition rfind :: "nat \<Rightarrow> str \<Rightarrow> int" where
  "rfind c p = rfind_from c 0 p (- 1)"

text \<open>The extension starts at the last dot of the last path component, unless that
  component has only dots before it.\<close>

definition splitext :: "str \<Rightarrow> str \<times> str" where
  "splitext p =
     (let sepIndex = rfind 47 p; dotIndex = rfind 46 p
      in if dotIndex > sepIndex \<and>
            list_ex (\<lambda>c. c \<noteq> 46) (take (nat (dotIndex - (sepIndex + 1))) (drop (nat (sepIndex + 1)) p))
         then (take (nat dotIndex) p, drop (nat dotIndex) p)
         else (p, []))"

definition ascii_lower :: "nat \<Rightarrow> nat" where
  "ascii_lower c = (if 65 \<le> c \<and> c \<le> 90 then c + 32 else c)"

subsection \<open>Third-party libraries\<close>

text \<open>A PDF page either raises on \<open>extract_text()\<close> or returns a string or \<open>None\<close>; a DOCX
  document has paragraphs and tables of rows of cells.\<close>

type_synonym pdf_page = "str + str option"

record docx_document =
  paragraphs :: "str list"
  tables :: "str list list list"

text \<open>What the interpreter and the installed packages provide: \<open>str.lower\<close> on strings with
  code points beyond ASCII, \<open>pdfplumber.open\<close> and \<open>docx.Document\<close> (\<open>None\<close> when the
  package is not installed; applied to what the path resolves to, with \<open>Inl\<close> when the
  package raises), and the SHA-256 function behind \<open>hashlib.sha256\<close>.\<close>

record externals =
  str_lower_unicode :: "str \<Rightarrow> str"
  pdfplumber_open :: "(node \<Rightarrow> str + pdf_page list) option"
  docx_Document :: "(node \<Rightarrow> str + docx_document) option"
  sha256 :: "bytes \<Rightarrow> 256 word"

definition str_lower :: "externals \<Rightarrow> str \<Rightarrow> str" where
  "str_lower X s = (if list_all (\<lambda>c. c < 128) s then map ascii_lower s else str_lower_unicode X s)"


subsection \<open>Text codecs\<close>

text \<open>One step of the UTF-8 decoder: the code point and the number of bytes read, or the
  length of the ill-formed prefix (what the \<open>replace\<close> handler substitutes as a whole).\<close>

datatype utf8_step = Decoded nat nat | Invalid nat

definition is_cont :: "byte \<Rightarrow> bool" where
  "is_cont b \<longleftrightarrow> 128 \<le> unat b \<and> unat b \<le> 191"

definition cont_bits :: "byte \<Rightarrow> nat" where
  "cont_bits b = unat b - 128"

definition utf8_step3 :: "nat \<Rightarrow> bytes \<Rightarrow> utf8_step" where
  "utf8_step3 c bs =
     (case bs of
        [] \<Rightarrow> Invalid 1
      | b1 # bs1 \<Rightarrow>
          if \<not> is_cont b1 \<or> (c = 224 \<and> unat b1 < 160) \<or> (c = 237 \<and> 160 \<le> unat b1)
          then Invalid 1
          else (case bs1 of
                  [] \<Rightarrow> Invalid 2
                | b2 # _ \<Rightarrow>
                    if is_cont b2
                    then Decoded ((c - 224) * 4096 + cont_bits b1 * 64 + cont_bits b2) 3
                    else Invalid 2))"

definition utf8_step4 :: "nat \<Rightarrow> bytes \<Rightarrow> utf8_step" where
  "utf8_step4 c bs =
     (case bs of
        [] \<Rightarrow> Invalid 1
      | b1 # bs1 \<Rightarrow>
          if \<not> is_cont b1 \<or> (c = 240 \<and> unat b1 < 144) \<or> (c = 244 \<and> 144 \<le> unat b1)
          then Invalid 1
          else (case bs1 of
                  [] \<Rightarrow> Invalid 2
                | b2 # bs2 \<Rightarrow>
                    if \<not> is_cont b2 then Invalid 2
                    else (case bs2 of
                            [] \<Rightarrow> Invalid 3
                          | b3 # _ \<Rightarrow>
                              if is_cont b3
                              then Decoded ((c - 240) * 262144 + cont_bits b1 * 4096 +
                                            cont_bits b2 * 64 + cont_bits b3) 4
                              else Invalid 3)))"

definition utf8_next :: "byte \<Rightarrow> bytes \<Rightarrow> utf8_step" where
  "utf8_next b0 bs =
     (let c = unat b0
      in if c < 128 then Decoded c 1
         else if c < 194 then Invalid 1
         else if c < 224 then
           (case bs of
              [] \<Rightarrow> Invalid 1
            | b1 # _ \<Rightarrow> if is_cont b1 then Decoded ((c - 192) * 64 + cont_bits b1) 2 else Invalid 1)
         else if c < 240 then utf8_step3 c bs
         else if c < 245 then utf8_step4 c bs
         else Invalid 1)"

text \<open>\<open>bytes.decode("utf-8", errors="strict")\<close>: an ill-formed sequence is a
  \<open>UnicodeDecodeError\<close> (\<open>None\<close>).\<close>

fun utf8_decode_strict :: "bytes \<Rightarrow> str option" where
  "utf8_decode_strict [] = Some []"
| "utf8_decode_strict (b0 # bs) =
     (case utf8_next b0 bs of
        Decoded cp n \<Rightarrow> map_option ((#) cp) (utf8_decode_strict (drop (n - 1) bs))
      | Invalid n \<Rightarrow> None)"

text \<open>\<open>bytes.decode("utf-8", errors="replace")\<close>: U+FFFD stands for every ill-formed
  prefix; this decoding cannot fail.\<close>

fun utf8_decode_replace :: "bytes \<Rightarrow> str" where
  "utf8_decode_replace [] = []"
| "utf8_decode_replace (b0 # bs) =
     (case utf8_next b0 bs of
        Decoded cp n \<Rightarrow> cp # utf8_decode_replace (drop (n - 1) bs)
      | Invalid n \<Rightarrow> 65533 # utf8_decode_replace (drop (n - 1) bs))"

definition latin1_decode :: "bytes \<Rightarrow> str option" where
  "latin1_decode data = Some (map unat data)"

definition ascii_decode :: "bytes \<Rightarrow> str option" where
  "ascii_decode data = (if list_all (\<lambda>b. unat b < 128) data then Some (map unat data) else None)"

text \<open>Windows-1252 as Python has it: \<open>0x80..0x9F\<close> go through the table, and the five
  bytes the table leaves out are decoding errors.\<close>

definition cp1252_table :: "(nat \<times> nat) list" where
  "cp1252_table =
     [(128, 8364), (130, 8218), (131, 402), (132, 8222), (133, 8230), (134, 8224), (135, 8225),
      (136, 710), (137, 8240), (138, 352), (139, 8249), (140, 338), (142, 381),
      (145, 8216), (146, 8217), (147, 8220), (148, 8221), (149, 8226), (150, 8211), (151, 8212),
      (152, 732), (153, 8482), (154, 353), (155, 8250), (156, 339), (158, 382), (159, 376)]"

definition cp1252_char :: "byte \<Rightarrow> nat option" where
  "cp1252_char b =
     (let c = unat b in if c < 128 \<or> 160 \<le> c then Some c else map_of cp1252_table c)"

fun cp1252_decode :: "bytes \<Rightarrow> str option" where
  "cp1252_decode [] = Some []"
| "cp1252_decode (b # bs) =
     (case cp1252_char b of
        None \<Rightarrow> None
      | Some c \<Rightarrow> map_option ((#) c) (cp1252_decode bs))"

text \<open>The codec registry, for the names the repository uses; any other name is a
  \<open>LookupError\<close> (\<open>None\<close>).\<close>

definition codecs_lookup :: "str \<Rightarrow> (bytes \<Rightarrow> str option) option" where
  "codecs_lookup name =
     (if name = u ''utf-8'' then Some utf8_decode_strict
      else if name = u ''latin-1'' then Some latin1_decode
      else if name = u ''cp1252'' then Some cp1252_decode
      else if name = u ''ascii'' then Some ascii_decode
      else None)"

text \<open>Reading a file opened in text mode translates \<open>\r\n\<close> and \<open>\r\<close> to \<open>\n\<close>.\<close>

definition universal_newlines :: "str \<Rightarrow> str" where
  "universal_newlines s = replace [13] [10] (replace [13, 10] [10] s)"

section \<open>utils.py: text extraction\<close>

text \<open>\<open>_extract_pdf\<close>: pages are extracted one by one; a page that raises is skipped (with a
  printed warning, which the model leaves out), as is a page without content.\<close>

definition page_content :: "pdf_page \<Rightarrow> str list" where
  "page_content page =
     (case page of
        Inl e \<Rightarrow> []
      | Inr None \<Rightarrow> []
      | Inr (Some content) \<Rightarrow> if content \<noteq> [] then [content] else [])"

definition extract_pdf :: "externals \<Rightarrow> filesystem \<Rightarrow> str \<Rightarrow> error + str" where
  "extract_pdf X fs filepath =
     (case pdfplumber_open X of
        None \<Rightarrow> Inl (ImportError
          (u ''pdfplumber is required for PDF extraction. Run: pip install pdfplumber''))
      | Some pdf_open \<Rightarrow>
          (case fs filepath of
             None \<Rightarrow> Inl (FileNotFoundError filepath)
           | Some node \<Rightarrow>
               (case pdf_open node of
                  Inl reason \<Rightarrow> Inl (LibraryError reason)
                | Inr pages \<Rightarrow> Inr (join [10] (concat (map page_content pages))))))"

text \<open>\<open>_extract_docx\<close>: the paragraphs, then every table cell that is not blank.\<close>

definition extract_docx :: "externals \<Rightarrow> filesystem \<Rightarrow> str \<Rightarrow> error + str" where
  "extract_docx X fs filepath =
     (case docx_Document X of
        None \<Rightarrow> Inl (ImportError
          (u ''python-docx is required for DOCX extraction. Run: pip install python-docx''))
      | Some Document \<Rightarrow>
          (case fs filepath of
             None \<Rightarrow> Inl (FileNotFoundError filepath)
           | Some node \<Rightarrow>
               (case Document node of
                  Inl reason \<Rightarrow> Inl (LibraryError reason)
                | Inr doc \<Rightarrow>
                    Inr (join [10]
                      (paragraphs doc @
                       filter (\<lambda>cell. strip cell \<noteq> []) (concat (concat (tables doc))))))))"

text \<open>\<open>_extract_txt\<close>: the loop over the encodings returns the first strict decoding that
  succeeds; \<open>UnicodeDecodeError\<close> and \<open>LookupError\<close> move on to the next encoding.\<close>

definition encodings :: "str list" where
  "encodings = [u ''utf-8'', u ''latin-1'', u ''cp1252'', u ''ascii'']"

fun try_encodings :: "(str \<Rightarrow> (bytes \<Rightarrow> str option) option) \<Rightarrow> str list \<Rightarrow> bytes \<Rightarrow> str option" where
  "try_encodings lookup [] data = None"
| "try_encodings lookup (enc # encs) data =
     (case lookup enc of
        None \<Rightarrow> try_encodings lookup encs data
      | Some decode \<Rightarrow>
          (case decode data of
             None \<Rightarrow> try_encodings lookup encs data
           | Some s \<Rightarrow> Some (universal_newlines s)))"

definition extract_txt :: "filesystem \<Rightarrow> str \<Rightarrow> error + str" where
  "extract_txt fs filepath =
     (case read_file fs filepath of
        Inl e \<Rightarrow> Inl e
      | Inr data \<Rightarrow>
          (case try_encodings codecs_lookup encodings data of
             Some s \<Rightarrow> Inr s
           | None \<Rightarrow> Inr (universal_newlines (utf8_decode_replace data))))"

definition unsupported_message :: "str \<Rightarrow> str" where
  "unsupported_message ext =
     u ''Unsupported file type '' @ [39] @ ext @ [39] @ u ''. Supported: .pdf, .docx, .txt''"

definition extract_text :: "externals \<Rightarrow> filesystem \<Rightarrow> str \<Rightarrow> error + str" where
  "extract_text X fs filepath =
     (if \<not> os_path_exists fs filepath
      then Inl (FileNotFoundError (u ''File not found: '' @ filepath))
      else
        let ext = str_lower X (snd (splitext filepath));
            raw_text =
              (if ext = u ''.pdf'' then extract_pdf X fs filepath
               else if ext = u ''.docx'' then extract_docx X fs filepath
               else if ext = u ''.txt'' then extract_txt fs filepath
               else Inl (ValueError (unsupported_message ext)))
        in case raw_text of
             Inl e \<Rightarrow> Inl e
           | Inr t \<Rightarrow> Inr (clean_text t))"

section \<open>utils.py: hashing\<close>

text \<open>A \<open>hashlib\<close> object is modelled by the bytes it has been fed (\<open>update(a); update(b)\<close>
  is \<open>update(a + b)\<close>); \<open>hexdigest\<close> writes the 256-bit digest as 64 lowercase hexadecimal
  digits, most significant first.\<close>

definition sha256_update :: "bytes \<Rightarrow> bytes \<Rightarrow> bytes" where
  "sha256_update fed chunk = fed @ chunk"

definition hex_digit :: "nat \<Rightarrow> nat" where
  "hex_digit n = (if n < 10 then 48 + n else 87 + n)"

definition is_lower_hex :: "nat \<Rightarrow> bool" where
  "is_lower_hex c \<longleftrightarrow> (48 \<le> c \<and> c \<le> 57) \<or> (97 \<le> c \<and> c \<le> 102)"

definition hexdigest :: "256 word \<Rightarrow> str" where
  "hexdigest w = map (\<lambda>i. hex_digit (unat (drop_bit (4 * (63 - i)) w) mod 16)) [0..<64]"

text \<open>The loop \<open>for chunk in iter(lambda: f.read(n), b"")\<close>: \<open>rest\<close> is the unread part of
  the file and \<open>fed\<close> the state of the hash object.\<close>

function hash_chunks :: "nat \<Rightarrow> bytes \<Rightarrow> bytes \<Rightarrow> bytes" where
  "hash_chunks n rest fed =
     (let chunk = take n rest
      in if chunk = [] then fed else hash_chunks n (drop n rest) (sha256_update fed chunk))"
  by pat_completeness auto
termination
  by (relation "measure (\<lambda>(n, rest, fed). length rest)") auto

declare hash_chunks.simps [simp del]

definition file_hash :: "externals \<Rightarrow> filesystem \<Rightarrow> str \<Rightarrow> error + str" where
  "file_hash X fs filepath =
     (case read_file fs filepath of
        Inl e \<Rightarrow> Inl e
      | Inr data \<Rightarrow> Inr (hexdigest (sha256 X (hash_chunks 65536 data []))))"


section \<open>NumPy arrays and the \<open>.npy\<close> format\<close>

text \<open>
  \<open>np.save\<close> and \<open>np.load\<close> after the documented \<open>.npy\<close> format (\<open>numpy.lib.format\<close>,
  versions 1.0 to 3.0). An array is what \<open>np.save\<close> reads of it: its dtype, its shape, whether
  its elements are stored in Fortran order (\<open>f_contiguous\<close> and not \<open>c_contiguous\<close>), and the
  bytes of its elements in that order (C order for any other array, the pickle for an object
  array). The numeric dtypes are the booleans, the signed and unsigned integers, the floats
  and the complex floats of NumPy with their item sizes in bytes.
\<close>

datatype byteorder = LittleEndian | BigEndian | NotApplicable

datatype kind = BoolKind | SignedInt | UnsignedInt | Floating | ComplexFloating

datatype dtype = Numeric byteorder kind nat | ObjectDtype

record ndarray =
  arr_dtype :: dtype
  arr_shape :: "nat list"
  arr_fortran :: bool
  arr_data :: bytes

datatype np_object = NdArray ndarray | NpzFile

fun item_sizes :: "kind \<Rightarrow> nat list" where
  "item_sizes BoolKind = [1]"
| "item_sizes SignedInt = [1, 2, 4, 8]"
| "item_sizes UnsignedInt = [1, 2, 4, 8]"
| "item_sizes Floating = [2, 4, 8, 16]"
| "item_sizes ComplexFloating = [8, 16, 32]"

fun valid_dtype :: "dtype \<Rightarrow> bool" where
  "valid_dtype (Numeric bo k n) \<longleftrightarrow> n \<in> set (item_sizes k) \<and> ((bo = NotApplicable) = (n = 1))"
| "valid_dtype ObjectDtype \<longleftrightarrow> True"

fun itemsize :: "dtype \<Rightarrow> nat" where
  "itemsize (Numeric bo k n) = n"
| "itemsize ObjectDtype = 8"

text \<open>The arrays NumPy can hold: at most 64 dimensions, each below \<open>2^63\<close>, and for a numeric
  dtype as many bytes as the shape and the item size say.\<close>

definition valid_ndarray :: "ndarray \<Rightarrow> bool" where
  "valid_ndarray a \<longleftrightarrow>
     valid_dtype (arr_dtype a) \<and> length (arr_shape a) \<le> 64 \<and>
     list_all (\<lambda>d. d < 9223372036854775808) (arr_shape a) \<and>
     (case arr_dtype a of
        ObjectDtype \<Rightarrow> True
      | Numeric bo k n \<Rightarrow> length (arr_data a) = prod_list (arr_shape a) * n)"

subsection \<open>The header\<close>

text \<open>\<open>repr\<close> of a non-negative \<open>int\<close>, and its inverse on a string of digits.\<close>

function show_nat :: "nat \<Rightarrow> str" where
  "show_nat n = (if n < 10 then [48 + n] else show_nat (n div 10) @ [48 + n mod 10])"
  by pat_completeness auto
termination
  by (relation "measure (\<lambda>n. n)") auto

declare show_nat.simps [simp del]

definition is_digit :: "nat \<Rightarrow> bool" where
  "is_digit c \<longleftrightarrow> 48 \<le> c \<and> c \<le> 57"

definition digits_value :: "str \<Rightarrow> nat" where
  "digits_value ds = foldl (\<lambda>a d. 10 * a + (d - 48)) 0 ds"

definition read_nat :: "str \<Rightarrow> (nat \<times> str) option" where
  "read_nat s =
     (if takeWhile is_digit s = [] then None
      else Some (digits_value (takeWhile is_digit s), dropWhile is_digit s))"

text \<open>\<open>dtype.descr\<close> of a dtype without fields, such as \<open><f4\<close>, and \<open>numpy.dtype\<close> of it.\<close>

fun byteorder_char :: "byteorder \<Rightarrow> nat" where
  "byteorder_char LittleEndian = 60"
| "byteorder_char BigEndian = 62"
| "byteorder_char NotApplicable = 124"

fun kind_char :: "kind \<Rightarrow> nat" where
  "kind_char BoolKind = 98"
| "kind_char SignedInt = 105"
| "kind_char UnsignedInt = 117"
| "kind_char Floating = 102"
| "kind_char ComplexFloating = 99"

fun descr :: "dtype \<Rightarrow> str" where
  "descr (Numeric bo k n) = byteorder_char bo # kind_char k # show_nat n"
| "descr ObjectDtype = [124, 79]"

definition parse_byteorder :: "nat \<Rightarrow> byteorder option" where
  "parse_byteorder c =
     (if c = 60 then Some LittleEndian else if c = 62 then Some BigEndian
      else if c = 124 then Some NotApplicable else None)"

definition parse_kind :: "nat \<Rightarrow> kind option" where
  "parse_kind c =
     (if c = 98 then Some BoolKind else if c = 105 then Some SignedInt
      else if c = 117 then Some UnsignedInt else if c = 102 then Some Floating
      else if c = 99 then Some ComplexFloating else None)"

definition parse_descr :: "str \<Rightarrow> dtype option" where
  "parse_descr s =
     (if s = [124, 79] then Some ObjectDtype
      else case s of
        b # k # ds \<Rightarrow>
          (case parse_byteorder b of
             None \<Rightarrow> None
           | Some bo \<Rightarrow>
               (case parse_kind k of
                  None \<Rightarrow> None
                | Some kd \<Rightarrow>
                    if ds \<noteq> [] \<and> list_all is_digit ds \<and>
                       valid_dtype (Numeric bo kd (digits_value ds))
                    then Some (Numeric bo kd (digits_value ds)) else None))
      | _ \<Rightarrow> None)"

text \<open>The header is the \<open>repr\<close> of a dictionary with the keys in sorted order, every entry
  followed by a comma:
  \<^verbatim>\<open>{'descr': '<f4', 'fortran_order': False, 'shape': (384,), }\<close>.\<close>

definition key_descr :: str where
  "key_descr = u ''{'' @ [39] @ u ''descr'' @ [39] @ u '': '' @ [39]"

definition key_fortran_order :: str where
  "key_fortran_order = [39] @ u '', '' @ [39] @ u ''fortran_order'' @ [39] @ u '': ''"

definition key_shape :: str where
  "key_shape = u '', '' @ [39] @ u ''shape'' @ [39] @ u '': (''"

definition dict_end :: str where
  "dict_end = u '', }''"

definition repr_bool :: "bool \<Rightarrow> str" where
  "repr_bool b = (if b then u ''True'' else u ''False'')"

text \<open>\<open>repr\<close> of a tuple of integers after its opening parenthesis: \<open>)\<close>, \<open>3,)\<close>, \<open>2, 3)\<close>.\<close>

fun tuple_body :: "nat list \<Rightarrow> str" where
  "tuple_body [] = [41]"
| "tuple_body [d] = show_nat d @ [44, 41]"
| "tuple_body ds = join [44, 32] (map show_nat ds) @ [41]"

definition header_dict :: "ndarray \<Rightarrow> str" where
  "header_dict a =
     key_descr @ descr (arr_dtype a) @ key_fortran_order @ repr_bool (arr_fortran a) @
     key_shape @ tuple_body (arr_shape a) @ dict_end"

text \<open>Spare room after the dictionary, so that the length of the growing axis can be
  rewritten in place (\<open>GROWTH_AXIS_MAX_DIGITS = 21\<close>).\<close>

definition growth_padding :: "ndarray \<Rightarrow> nat" where
  "growth_padding a =
     (if arr_shape a = [] then 0
      else 21 - length (show_nat (if arr_fortran a then last (arr_shape a)
                                  else hd (arr_shape a))))"

definition header_text :: "ndarray \<Rightarrow> str" where
  "header_text a = header_dict a @ replicate (growth_padding a) 32"

text \<open>Little-endian integers of \<open>k\<close> bytes (\<open>struct.pack\<close> with \<open><H\<close> and \<open><I\<close>).\<close>

fun le_bytes :: "nat \<Rightarrow> nat \<Rightarrow> bytes" where
  "le_bytes 0 n = []"
| "le_bytes (Suc k) n = word_of_nat (n mod 256) # le_bytes k (n div 256)"

fun le_value :: "bytes \<Rightarrow> nat" where
  "le_value [] = 0"
| "le_value (b # bs) = unat b + 256 * le_value bs"

definition MAGIC_PREFIX :: bytes where
  "MAGIC_PREFIX = [147, 78, 85, 77, 80, 89]"

text \<open>\<open>_wrap_header\<close> for one version: the magic string, the version, the length of what
  follows, the header, and spaces up to a final newline so that the data starts at a
  multiple of 64 bytes.\<close>

definition wrap_header :: "nat \<Rightarrow> nat \<Rightarrow> str \<Rightarrow> bytes" where
  "wrap_header major size_bytes header =
     (let hlen = length header + 1;
          padlen = 64 - ((8 + size_bytes + hlen) mod 64)
      in MAGIC_PREFIX @ [word_of_nat major, 0] @ le_bytes size_bytes (hlen + padlen) @
         map word_of_nat header @ replicate padlen 32 @ [10])"

definition wrapped_length :: "nat \<Rightarrow> str \<Rightarrow> nat" where
  "wrapped_length size_bytes header =
     (let hlen = length header + 1 in hlen + (64 - ((8 + size_bytes + hlen) mod 64)))"

definition header_too_big :: error where
  "header_too_big = ValueError (u ''Header length too big for version=(2, 0)'')"

text \<open>\<open>_wrap_header_guess_version\<close>: version 1.0 when the length fits two bytes, else
  version 2.0 when it fits four. (The headers written here are ASCII, so version 3.0 is
  never needed.)\<close>

definition write_array_header :: "ndarray \<Rightarrow> error + bytes" where
  "write_array_header a =
     (if wrapped_length 2 (header_text a) < 65536
      then Inr (wrap_header 1 2 (header_text a))
      else if wrapped_length 4 (header_text a) < 4294967296
      then Inr (wrap_header 2 4 (header_text a))
      else Inl header_too_big)"

subsection \<open>\<open>np.save\<close> and \<open>np.load\<close>\<close>

definition np_save :: "ndarray \<Rightarrow> error + bytes" where
  "np_save a =
     (case write_array_header a of
        Inl e \<Rightarrow> Inl e
      | Inr header \<Rightarrow> Inr (header @ arr_data a))"

text \<open>Reading the header back. \<open>numpy\<close> evaluates it as a Python literal; the parser here
  accepts the dictionaries that \<open>np.save\<close> writes, followed by any number of spaces and the
  newline, and takes every other header as malformed.\<close>

fun strip_prefix :: "'a list \<Rightarrow> 'a list \<Rightarrow> 'a list option" where
  "strip_prefix [] s = Some s"
| "strip_prefix (p # ps) [] = None"
| "strip_prefix (p # ps) (c # s) = (if p = c then strip_prefix ps s else None)"

definition parse_bool :: "str \<Rightarrow> (bool \<times> str) option" where
  "parse_bool s =
     (case strip_prefix (u ''True'') s of
        Some r \<Rightarrow> Some (True, r)
      | None \<Rightarrow> map_option (Pair False) (strip_prefix (u ''False'') s))"

text \<open>The elements of a tuple after the first, up to the closing parenthesis.\<close>

function parse_more :: "str \<Rightarrow> (nat list \<times> str) option" where
  "parse_more s =
     (case read_nat s of
        None \<Rightarrow> None
      | Some (d, s1) \<Rightarrow>
          (case strip_prefix [41] s1 of
             Some r \<Rightarrow> Some ([d], r)
           | None \<Rightarrow>
               (case strip_prefix [44, 32] s1 of
                  None \<Rightarrow> None
                | Some s2 \<Rightarrow> map_option (\<lambda>(ds, r). (d # ds, r)) (parse_more s2))))"
  by pat_completeness auto

termination
proof (relation "measure length")
  show "wf (measure length)" by simp
next
  fix s :: str and x2 d s1 s2
  assume r: "read_nat s = Some x2" "(d, s1) = x2" and p: "strip_prefix [44, 32] s1 = Some s2"
  have "s1 = dropWhile is_digit s" using r by (auto simp: read_nat_def split: if_splits)
  then have "length s1 \<le> length s" by (simp add: length_dropWhile_le)
  moreover have "length s2 < length s1"
    using p by (cases s1; cases "tl s1") (auto split: if_splits)
  ultimately show "(s2, s) \<in> measure length" by simp
qed

declare parse_more.simps [simp del]

text \<open>A tuple after its opening parenthesis: empty, of one element, or longer.\<close>

definition parse_tuple :: "str \<Rightarrow> (nat list \<times> str) option" where
  "parse_tuple s =
     (case strip_prefix [41] s of
        Some r \<Rightarrow> Some ([], r)
      | None \<Rightarrow>
          (case read_nat s of
             None \<Rightarrow> None
           | Some (d, s1) \<Rightarrow>
               (case strip_prefix [44, 41] s1 of
                  Some r \<Rightarrow> Some ([d], r)
                | None \<Rightarrow>
                    (case strip_prefix [44, 32] s1 of
                       None \<Rightarrow> None
                     | Some s2 \<Rightarrow> map_option (\<lambda>(ds, r). (d # ds, r)) (parse_more s2)))))"

definition parse_header :: "str \<Rightarrow> (str \<times> bool \<times> nat list) option" where
  "parse_header s =
     (case strip_prefix key_descr s of
        None \<Rightarrow> None
      | Some s1 \<Rightarrow>
          (case strip_prefix key_fortran_order (dropWhile (\<lambda>c. c \<noteq> 39) s1) of
             None \<Rightarrow> None
           | Some s2 \<Rightarrow>
               (case parse_bool s2 of
                  None \<Rightarrow> None
                | Some (fortran, s3) \<Rightarrow>
                    (case strip_prefix key_shape s3 of
                       None \<Rightarrow> None
                     | Some s4 \<Rightarrow>
                         (case parse_tuple s4 of
                            None \<Rightarrow> None
                          | Some (shape, s5) \<Rightarrow>
                              (case strip_prefix dict_end s5 of
                                 None \<Rightarrow> None
                               | Some s6 \<Rightarrow>
                                   if dropWhile (\<lambda>c. c = 32) s6 = [10]
                                   then Some (takeWhile (\<lambda>c. c \<noteq> 39) s1, fortran, shape)
                                   else None))))))"

text \<open>\<open>read_array\<close> with \<open>allow_pickle=False\<close>: the version, the length and the text of the
  header (at most \<open>max_header_size\<close> characters), its three entries, and then the bytes of
  the elements; an object array is refused. The message of \<open>undecodable\<close> is one of those
  that the UTF-8 codec gives.\<close>

definition eof_error :: error where
  "eof_error = ValueError (u ''EOF: reading array data or header'')"

definition bad_version :: error where
  "bad_version = ValueError (u ''we only support format version (1,0), (2,0), and (3,0)'')"

definition bad_header :: error where
  "bad_header = ValueError (u ''Cannot parse header'')"

definition bad_descr :: error where
  "bad_descr = ValueError (u ''descr is not a valid dtype descriptor'')"

definition object_refused :: error where
  "object_refused = ValueError (u ''Object arrays cannot be loaded when allow_pickle=False'')"

definition undecodable :: error where
  "undecodable = UnicodeDecodeError (u ''invalid start byte'')"

definition MAX_HEADER_SIZE :: nat where
  "MAX_HEADER_SIZE = 10000"

definition header_too_large :: error where
  "header_too_large =
     ValueError (u ''Header info length is large and may not be safe to load securely'')"

definition decode_header :: "nat \<Rightarrow> bytes \<Rightarrow> str option" where
  "decode_header major data =
     (if major = 3 then utf8_decode_strict data else latin1_decode data)"

definition array_from_header :: "str \<Rightarrow> bytes \<Rightarrow> error + np_object" where
  "array_from_header header payload =
     (case parse_header header of
        None \<Rightarrow> Inl bad_header
      | Some (d, fortran, shape) \<Rightarrow>
          (case parse_descr d of
             None \<Rightarrow> Inl bad_descr
           | Some ObjectDtype \<Rightarrow> Inl object_refused
           | Some (Numeric bo k n) \<Rightarrow>
               if length payload < prod_list shape * n then Inl eof_error
               else Inr (NdArray \<lparr>arr_dtype = Numeric bo k n, arr_shape = shape,
                                  arr_fortran = fortran,
                                  arr_data = take (prod_list shape * n) payload\<rparr>)))"

definition read_array :: "bytes \<Rightarrow> error + np_object" where
  "read_array blob =
     (if length blob < 8 then Inl eof_error
      else
        let major = unat (blob ! 6); minor = unat (blob ! 7);
            size_bytes = (if major = 1 then 2 else 4);
            hlen = le_value (take size_bytes (drop 8 blob));
            rest = drop (8 + size_bytes) blob
        in if \<not> (major \<in> {1, 2, 3} \<and> minor = 0) then Inl bad_version
           else if length blob < 8 + size_bytes \<or> length rest < hlen then Inl eof_error
           else
             (case decode_header major (take hlen rest) of
                None \<Rightarrow> Inl undecodable
              | Some header \<Rightarrow>
                  if MAX_HEADER_SIZE < length header then Inl header_too_large
                  else array_from_header header (drop hlen rest)))"

text \<open>\<open>np.load\<close> on the bytes of a file, with its defaults: the prefix of a zip archive
  gives what \<open>NpzFile\<close> makes of the file (the archive is not modelled further), the magic
  string an array, and anything else would be a pickle, which is refused.\<close>

definition no_data_left :: error where
  "no_data_left = EOFError (u ''No data left in file'')"

definition pickle_refused :: error where
  "pickle_refused =
     ValueError (u ''Cannot load file containing pickled data when allow_pickle=False'')"

definition np_load :: "bytes \<Rightarrow> error + np_object" where
  "np_load blob =
     (if blob = [] then Inl no_data_left
      else if take 4 blob = [80, 75, 3, 4] \<or> take 4 blob = [80, 75, 5, 6] then Inr NpzFile
      else if take 6 blob = MAGIC_PREFIX then read_array blob
      else Inl pickle_refused)"

section \<open>database.py: the document store\<close>

text \<open>
  The table \<open>documents\<close>. A row has the columns of the schema (prefixed with \<open>doc_\<close>); the
  nullable columns are options, and \<open>'t\<close> is the type of the \<open>REAL\<close> time stamps. A database
  is the table (\<open>None\<close> before \<open>CREATE TABLE\<close>), the \<open>AUTOINCREMENT\<close> counter that SQLite
  keeps in \<open>sqlite_sequence\<close>, and whether the index \<open>idx_hash\<close> exists. Every call of the
  module opens a connection, runs one statement, commits and closes, so a call is a function
  from database to database. The values of a call are taken to be storable as they are (a
  size within the 64-bit integers of SQLite, a time stamp that is a number).
\<close>

record 't document =
  doc_id :: nat
  doc_path :: str
  doc_text :: str
  doc_hash :: str
  doc_embedding :: bytes
  doc_file_size :: "int option"
  doc_modified_time :: "'t option"

record 't database =
  documents :: "'t document list option"
  sqlite_sequence :: nat
  idx_hash :: bool

text \<open>\<open>init_db\<close>: \<open>CREATE TABLE IF NOT EXISTS\<close>, then \<open>CREATE INDEX IF NOT EXISTS\<close>; a
  table that is created starts with an empty row counter. The line the function prints is
  left out.\<close>

definition init_db :: "'t database \<Rightarrow> 't database" where
  "init_db db =
     (case documents db of
        None \<Rightarrow> db\<lparr>documents := Some [], sqlite_sequence := 0, idx_hash := True\<rparr>
      | Some rows \<Rightarrow> db\<lparr>idx_hash := True\<rparr>)"

text \<open>The two helpers, written over the functions of NumPy that they call, which are
  \<open>np_save\<close> and \<open>np_load\<close> above; what is proved of the store holds for any
  serializer.\<close>

definition serialize_embedding :: "('a \<Rightarrow> 'b) \<Rightarrow> 'a \<Rightarrow> 'b" where
  "serialize_embedding save embedding = save embedding"

definition deserialize_embedding :: "(bytes \<Rightarrow> 'b) \<Rightarrow> bytes \<Rightarrow> 'b" where
  "deserialize_embedding load blob = load blob"

text \<open>What the \<open>sqlite3\<close> module does with the parameters of a statement, in their order:
  a \<open>str\<close> is encoded as UTF-8, which fails on a lone surrogate; an \<open>int\<close> has to fit the
  64-bit \<open>INTEGER\<close> of SQLite; a \<open>float\<close> that is NaN is stored as \<open>NULL\<close>. A Python
  \<open>float\<close> is NaN or a number of type \<open>'t\<close>.\<close>

definition is_surrogate :: "nat \<Rightarrow> bool" where
  "is_surrogate c \<longleftrightarrow> 55296 \<le> c \<and> c \<le> 57343"

definition utf8_encodable :: "str \<Rightarrow> bool" where
  "utf8_encodable s \<longleftrightarrow> \<not> list_ex is_surrogate s"

definition sqlite_integer :: "int \<Rightarrow> bool" where
  "sqlite_integer n \<longleftrightarrow> - 9223372036854775808 \<le> n \<and> n \<le> 9223372036854775807"

datatype 't pyfloat = NaN | Number 't

fun sqlite_real :: "'t pyfloat option \<Rightarrow> 't option" where
  "sqlite_real None = None"
| "sqlite_real (Some NaN) = None"
| "sqlite_real (Some (Number x)) = Some x"

definition surrogates_not_allowed :: error where
  "surrogates_not_allowed = UnicodeEncodeError (u ''surrogates not allowed'')"

definition int_too_large :: error where
  "int_too_large = OverflowError (u ''Python int too large to convert to SQLite INTEGER'')"

definition bind_parameters :: "str \<Rightarrow> str \<Rightarrow> str \<Rightarrow> int option \<Rightarrow> error option" where
  "bind_parameters path text fhash file_size =
     (if utf8_encodable path \<and> utf8_encodable text \<and> utf8_encodable fhash
      then (case file_size of
              None \<Rightarrow> None
            | Some n \<Rightarrow> if sqlite_integer n then None else Some int_too_large)
      else Some surrogates_not_allowed)"

text \<open>\<open>insert_document\<close> (its parameter \<open>file_hash\<close> is \<open>fhash\<close> here, the name being
  taken by the function of utils.py). The embedding is serialized while the arguments of
  \<open>execute\<close> are built; the statement is prepared, which needs the table, and its parameters
  are bound; an exception at any of these steps leaves the store as it is. Then
  \<open>INSERT OR REPLACE\<close> deletes the rows that violate \<open>UNIQUE (path)\<close> and inserts the new
  row under a fresh \<open>id\<close>, one more than the largest ever used.\<close>

definition no_such_table :: error where
  "no_such_table = OperationalError (u ''no such table: documents'')"

definition insert_document ::
  "('a \<Rightarrow> error + bytes) \<Rightarrow> 't database \<Rightarrow> str \<Rightarrow> str \<Rightarrow> str \<Rightarrow> 'a \<Rightarrow> int option \<Rightarrow>
   't pyfloat option \<Rightarrow> error + 't database" where
  "insert_document save db path text fhash embedding file_size modified_time =
     (case serialize_embedding save embedding of
        Inl e \<Rightarrow> Inl e
      | Inr blob \<Rightarrow>
          (case documents db of
             None \<Rightarrow> Inl no_such_table
           | Some rows \<Rightarrow>
               (case bind_parameters path text fhash file_size of
                  Some e \<Rightarrow> Inl e
                | None \<Rightarrow>
                    let rowid = Suc (fold max (map doc_id rows) (sqlite_sequence db));
                        row = \<lparr>doc_id = rowid, doc_path = path, doc_text = text,
                               doc_hash = fhash, doc_embedding = blob,
                               doc_file_size = file_size,
                               doc_modified_time = sqlite_real modified_time\<rparr>
                    in Inr (db\<lparr>documents := Some (filter (\<lambda>r. doc_path r \<noteq> path) rows @ [row]),
                               sqlite_sequence := rowid\<rparr>))))"

text \<open>\<open>check_existing_hash\<close>: \<open>fetchone\<close> on a \<open>SELECT\<close> without \<open>ORDER BY\<close>. SQLite walks
  the table by \<open>id\<close>, and the index \<open>idx_hash\<close> by \<open>(hash, id)\<close>: either way the first row
  found is the matching row with the least \<open>id\<close>.\<close>

definition check_existing_hash :: "'t database \<Rightarrow> str \<Rightarrow> error + str option" where
  "check_existing_hash db fhash =
     (case documents db of
        None \<Rightarrow> Inl no_such_table
      | Some rows \<Rightarrow>
          Inr (map_option doc_path (find (\<lambda>r. doc_hash r = fhash) (sort_key doc_id rows))))"


definition document_exists_by_path :: "'t database \<Rightarrow> str \<Rightarrow> error + bool" where
  "document_exists_by_path db path =
     (case documents db of
        None \<Rightarrow> Inl no_such_table
      | Some rows \<Rightarrow> Inr (list_ex (\<lambda>r. doc_path r = path) rows))"




text \<open>The rows stored for a path, and the constraints SQLite maintains on the table.\<close>

definition rows_of :: "'t database \<Rightarrow> 't document list" where
  "rows_of db = (case documents db of None \<Rightarrow> [] | Some rows \<Rightarrow> rows)"

definition rows_at :: "'t database \<Rightarrow> str \<Rightarrow> 't document list" where
  "rows_at db p = filter (\<lambda>r. doc_path r = p) (rows_of db)"

definition db_ok :: "'t database \<Rightarrow> bool" where
  "db_ok db \<longleftrightarrow>
     distinct (map doc_path (rows_of db)) \<and> distinct (map doc_id (rows_of db)) \<and>
     list_all (\<lambda>r. doc_id r \<le> sqlite_sequence db) (rows_of db)"


section \<open>indexer.py: the indexing pipeline\<close>
















text \<open>The files of the scenario: a text file that exists, and a PDF that exists and whose
  extraction fails.\<close>

definition is_file :: "filesystem \<Rightarrow> str \<Rightarrow> bool" where
  "is_file fs p = (case fs p of Some (File data) \<Rightarrow> True | _ \<Rightarrow> False)"

definition valid_txt :: "externals \<Rightarrow> filesystem \<Rightarrow> str \<Rightarrow> bool" where
  "valid_txt X fs p \<longleftrightarrow> is_file fs p \<and> str_lower X (snd (splitext p)) = u ''.txt''"

definition corrupt_pdf :: "externals \<Rightarrow> filesystem \<Rightarrow> str \<Rightarrow> bool" where
  "corrupt_pdf X fs p \<longleftrightarrow>
     is_file fs p \<and> str_lower X (snd (splitext p)) = u ''.pdf'' \<and> isl (extract_text X fs p)"



section \<open>Example inputs\<close>

text \<open>An interpreter without the optional packages, whose digest function is a stand-in
  (the length of the data), and a file system with one text file.\<close>

definition plain_externals :: externals where
  "plain_externals =
     \<lparr>str_lower_unicode = (\<lambda>s. s), pdfplumber_open = None, docx_Document = None,
      sha256 = (\<lambda>data. of_nat (length data))\<rparr>"

definition notes_fs :: filesystem where
  "notes_fs p =
     (if p = u ''notes.TXT'' then Some (File [97, 9, 98, 32, 32, 10, 10, 32, 32, 99, 32, 10])
      else None)"

text \<open>A file system with an image, a Latin-1 text file and a copy of it under another
  name.\<close>

definition sample_fs :: filesystem where
  "sample_fs p =
     (if p = u ''photo.JPG'' then Some (File [255, 216])
      else if p = u ''latin.txt'' then Some (File [99, 97, 102, 233])
      else if p = u ''copy.pdf'' then Some (File [99, 97, 102, 233])
      else None)"

text \<open>A database file before \<open>init_db\<close>, a stand-in for \<open>np.save\<close>, and a store with two
  documents.\<close>

definition fresh_db :: "nat database" where
  "fresh_db = \<lparr>documents = None, sqlite_sequence = 0, idx_hash = False\<rparr>"

definition byte_save :: "nat \<Rightarrow> error + bytes" where
  "byte_save x = Inr [of_nat x]"

definition two_rows :: "nat document list" where
  "two_rows =
     [\<lparr>doc_id = 1, doc_path = u ''a.txt'', doc_text = u ''one'', doc_hash = u ''h1'',
       doc_embedding = [1], doc_file_size = None, doc_modified_time = None\<rparr>,
      \<lparr>doc_id = 2, doc_path = u ''b.txt'', doc_text = u ''two'', doc_hash = u ''h2'',
       doc_embedding = [2], doc_file_size = Some 3, doc_modified_time = Some 7\<rparr>]"

definition two_docs_db :: "nat database" where
  "two_docs_db = \<lparr>documents = Some two_rows, sqlite_sequence = 2, idx_hash = True\<rparr>"






text \<open>A vector of two \<open>float32\<close> values, 1.0 and 2.0.\<close>

definition float32_pair :: ndarray where
  "float32_pair =
     \<lparr>arr_dtype = Numeric LittleEndian Floating 4, arr_shape = [2], arr_fortran = False,
      arr_data = [0, 0, 128, 63, 0, 0, 0, 64]\<rparr>"

section \<open>Properties of the cleaning\<close>

subsection \<open>Line endings and \<open>splitlines\<close>\<close>

lemma replace_CR: "replace [13] [10] s = map (\<lambda>c. if c = 13 then 10 else c) s"
proof (induction s)
  case Nil
  show ?case by (simp add: replace.simps)
next
  case (Cons c s)
  then show ?case by (subst replace.simps) simp
qed

lemma replace_CRLF_no_CR: "13 \<notin> set s \<Longrightarrow> replace [13, 10] [10] s = s"
proof (induction s)
  case Nil
  show ?case by (simp add: replace.simps)
next
  case (Cons c s)
  then show ?case by (subst replace.simps) auto
qed

lemma normalize_no_CR: "13 \<notin> set (replace [13] [10] s)"
  by (auto simp: replace_CR)

lemma normalize_id: "13 \<notin> set s \<Longrightarrow> replace [13] [10] (replace [13, 10] [10] s) = s"
  by (simp add: replace_CRLF_no_CR replace_CR) (induction s, auto)

lemma splitlines_from_char:
  "\<not> is_linebreak c \<Longrightarrow> splitlines_from cur (c # s) = splitlines_from (cur @ [c]) s"
  by (cases s) (auto simp: is_linebreak_def)

lemma splitlines_from_LF: "splitlines_from cur (10 # s) = cur # splitlines_from [] s"
  by (cases s) (auto simp: is_linebreak_def)

lemma splitlines_from_line:
  "\<forall>c\<in>set l. \<not> is_linebreak c \<Longrightarrow> splitlines_from cur (l @ s) = splitlines_from (cur @ l) s"
  by (induction l arbitrary: cur) (auto simp: splitlines_from_char)

lemma splitlines_from_join:
  "\<forall>l\<in>set (x # L). l \<noteq> [] \<and> (\<forall>c\<in>set l. \<not> is_linebreak c) \<Longrightarrow>
   splitlines_from [] (join [10] (x # L)) = x # L"
proof (induction L arbitrary: x)
  case Nil
  then show ?case using splitlines_from_line [of x "[]" "[]"] by simp
next
  case (Cons y L)
  have "splitlines_from [] (x @ 10 # join [10] (y # L)) = splitlines_from x (10 # join [10] (y # L))"
    using Cons.prems splitlines_from_line [of x "[]"] by simp
  then show ?case using Cons by (simp add: splitlines_from_LF)
qed

lemma splitlines_join:
  "\<forall>l\<in>set L. l \<noteq> [] \<and> (\<forall>c\<in>set l. \<not> is_linebreak c) \<Longrightarrow> splitlines (join [10] L) = L"
  by (cases L) (simp_all add: splitlines_def splitlines_from_join del: join.simps(3))

lemma splitlines_from_no_linebreak:
  "\<forall>c\<in>set cur. \<not> is_linebreak c \<Longrightarrow> l \<in> set (splitlines_from cur s) \<Longrightarrow> c \<in> set l \<Longrightarrow>
   \<not> is_linebreak c"
  by (induction cur s rule: splitlines_from.induct) (auto split: if_splits)

lemma splitlines_no_linebreak:
  "l \<in> set (splitlines s) \<Longrightarrow> c \<in> set l \<Longrightarrow> \<not> is_linebreak c"
  using splitlines_from_no_linebreak [of "[]" l s c] by (simp add: splitlines_def)


lemma re_sub_blanks_nonblank:
  "s = [] \<or> \<not> is_blank (hd s) \<Longrightarrow> re_sub_blanks s = [] \<or> \<not> is_blank (hd (re_sub_blanks s))"
  by (cases s) auto

lemma dropWhile_nonblank: "dropWhile is_blank s = [] \<or> \<not> is_blank (hd (dropWhile is_blank s))"
  using hd_dropWhile [of is_blank s] by blast

lemma no_double_space_Cons:
  "no_double_space (c # s) \<longleftrightarrow> (c = 32 \<longrightarrow> s = [] \<or> hd s \<noteq> 32) \<and> no_double_space s"
  by (cases s) auto

lemma re_sub_blanks_no_TAB: "9 \<notin> set (re_sub_blanks s)"
  by (induction s rule: re_sub_blanks.induct) (auto simp: is_blank_def)

lemma re_sub_blanks_no_double_space: "no_double_space (re_sub_blanks s)"
proof (induction s rule: re_sub_blanks.induct)
  case 1
  show ?case by simp
next
  case (2 c s)
  show ?case
  proof (cases "is_blank c")
    case True
    have "re_sub_blanks (dropWhile is_blank s) = [] \<or>
          \<not> is_blank (hd (re_sub_blanks (dropWhile is_blank s)))"
      by (rule re_sub_blanks_nonblank [OF dropWhile_nonblank])
    then show ?thesis using True 2 by (auto simp: no_double_space_Cons is_blank_def)
  next
    case False
    then show ?thesis using 2 by (auto simp: no_double_space_Cons is_blank_def)
  qed
qed

lemma re_sub_blanks_set: "set (re_sub_blanks s) \<subseteq> insert 32 (set s)"
proof (induction s rule: re_sub_blanks.induct)
  case 1
  show ?case by simp
next
  case (2 c s)
  have "set (dropWhile is_blank s) \<subseteq> set s" by (rule set_dropWhileD [THEN subsetI])
  then show ?case using 2 by auto
qed

lemma re_sub_blanks_id: "9 \<notin> set s \<Longrightarrow> no_double_space s \<Longrightarrow> re_sub_blanks s = s"
proof (induction s)
  case Nil
  show ?case by simp
next
  case (Cons c s)
  have "is_blank c \<Longrightarrow> dropWhile is_blank s = s"
    using Cons.prems by (cases s) (auto simp: is_blank_def)
  then show ?case using Cons by (auto simp: no_double_space_Cons is_blank_def)
qed

lemma no_double_space_append:
  "no_double_space (a @ b) \<Longrightarrow> no_double_space a \<and> no_double_space b"
  by (induction a rule: no_double_space.induct) (auto simp: no_double_space_Cons)

lemma dropWhile_hd_id: "xs = [] \<or> \<not> P (hd xs) \<Longrightarrow> dropWhile P xs = xs"
  by (cases xs) auto

lemma rev_dropWhile_rev: "rev (dropWhile P (rev t)) @ rev (takeWhile P (rev t)) = t"
  by (metis rev_append rev_rev_ident takeWhile_dropWhile_id)

lemma strip_decomp:
  "s = takeWhile is_whitespace s @ strip s @ rev (takeWhile is_whitespace (rev (dropWhile is_whitespace s)))"
proof -
  let ?t = "dropWhile is_whitespace s"
  have "?t = strip s @ rev (takeWhile is_whitespace (rev ?t))"
    unfolding strip_def by (rule rev_dropWhile_rev [symmetric])
  moreover have "s = takeWhile is_whitespace s @ ?t" by simp
  ultimately show ?thesis by metis
qed

lemma strip_set: "set (strip s) \<subseteq> set s"
  using strip_decomp [of s] by (metis Un_upper1 Un_upper2 set_append subset_trans)

lemma strip_no_double_space: "no_double_space s \<Longrightarrow> no_double_space (strip s)"
  using strip_decomp [of s] no_double_space_append by metis

lemma strip_trimmed: "strip s \<noteq> [] \<Longrightarrow> trimmed (strip s)"
proof -
  assume ne: "strip s \<noteq> []"
  let ?t = "dropWhile is_whitespace s"
  let ?r = "dropWhile is_whitespace (rev ?t)"
  have r: "?r \<noteq> []" using ne by (simp add: strip_def)
  have "\<not> is_whitespace (hd ?r)" using r hd_dropWhile by blast
  then have l: "\<not> is_whitespace (last (strip s))" using r by (simp add: strip_def last_rev)
  have t: "?t \<noteq> []" using r by (metis dropWhile.simps(1) rev.simps(1))
  have "?t = strip s @ rev (takeWhile is_whitespace (rev ?t))"
    unfolding strip_def by (rule rev_dropWhile_rev [symmetric])
  then have "hd ?t = hd (strip s)" using ne by (metis hd_append2)
  moreover have "\<not> is_whitespace (hd ?t)" using t hd_dropWhile by blast
  ultimately show ?thesis using ne l by (simp add: trimmed_def)
qed

lemma strip_id: "trimmed s \<Longrightarrow> strip s = s"
proof -
  assume a: "trimmed s"
  then have "dropWhile is_whitespace s = s" by (simp add: trimmed_def dropWhile_hd_id)
  moreover have "dropWhile is_whitespace (rev s) = rev s"
    using a by (simp add: trimmed_def dropWhile_hd_id hd_rev)
  ultimately show ?thesis by (simp add: strip_def)
qed


lemma clean_line_tidy:
  assumes "l \<in> set (splitlines s)" and "clean_line l \<noteq> []"
  shows "tidy_line (clean_line l)"
proof -
  have "set (clean_line l) \<subseteq> set (re_sub_blanks l)"
    unfolding clean_line_def by (rule strip_set)
  moreover have "set (re_sub_blanks l) \<subseteq> insert 32 (set l)" by (rule re_sub_blanks_set)
  moreover have "\<not> is_linebreak 32" by (simp add: is_linebreak_def)
  moreover have "\<forall>c\<in>set l. \<not> is_linebreak c" using assms(1) splitlines_no_linebreak by blast
  ultimately have lb: "\<forall>c\<in>set (clean_line l). \<not> is_linebreak c" by blast
  have tab: "9 \<notin> set (clean_line l)"
    using strip_set [of "re_sub_blanks l"] re_sub_blanks_no_TAB [of l]
    unfolding clean_line_def by blast
  have "no_double_space (clean_line l)"
    unfolding clean_line_def by (rule strip_no_double_space [OF re_sub_blanks_no_double_space])
  moreover have "trimmed (clean_line l)"
    using assms(2) unfolding clean_line_def by (rule strip_trimmed)
  ultimately show ?thesis using lb tab by (auto simp: tidy_line_def list_all_iff)
qed

lemma clean_line_id: "tidy_line l \<Longrightarrow> clean_line l = l"
proof -
  assume a: "tidy_line l"
  then have "9 \<notin> set l" by (auto simp: tidy_line_def list_all_iff)
  then have "re_sub_blanks l = l" using a by (simp add: tidy_line_def re_sub_blanks_id)
  then show ?thesis using a by (simp add: tidy_line_def clean_line_def strip_id)
qed

lemma set_join: "set (join sep L) \<subseteq> set sep \<union> \<Union> (set ` set L)"
  by (induction sep L rule: join.induct) auto

lemma no_double_space_sep:
  "c \<noteq> 32 \<Longrightarrow> no_double_space a \<Longrightarrow> no_double_space b \<Longrightarrow> no_double_space (a @ c # b)"
  by (induction a rule: no_double_space.induct) (auto simp: no_double_space_Cons)

lemma no_double_space_join:
  "\<forall>l\<in>set L. no_double_space l \<Longrightarrow> no_double_space (join [10] L)"
  by (induction "[10::nat]" L rule: join.induct) (auto simp: no_double_space_sep)

lemma clean_text_join:
  assumes "\<forall>l\<in>set L. tidy_line l"
  shows "clean_text (join [10] L) = join [10] L"
proof -
  have "\<forall>l\<in>set L. 13 \<notin> set l"
    using assms by (auto simp: tidy_line_def list_all_iff is_linebreak_def)
  then have "13 \<notin> set (join [10] L)" using set_join [of "[10]" L] by auto
  then have n: "replace [13] [10] (replace [13, 10] [10] (join [10] L)) = join [10] L"
    by (rule normalize_id)
  have "\<forall>l\<in>set L. l \<noteq> [] \<and> (\<forall>c\<in>set l. \<not> is_linebreak c)"
    using assms by (auto simp: tidy_line_def trimmed_def list_all_iff)
  then have s: "splitlines (join [10] L) = L" by (rule splitlines_join)
  have m: "map clean_line L = L" using assms by (simp add: clean_line_id map_idI)
  have "\<forall>l\<in>set L. l \<noteq> []" using assms by (auto simp: tidy_line_def trimmed_def)
  then have f: "filter (\<lambda>line. line \<noteq> []) L = L" by (simp add: filter_id_conv)
  show ?thesis by (simp add: clean_text_def n s m f)
qed

lemma clean_text_lines: "clean_text t = join [10] (cleaned_lines t)"
  by (simp add: clean_text_def cleaned_lines_def)

lemma cleaned_lines_tidy: "l \<in> set (cleaned_lines t) \<Longrightarrow> tidy_line l"
  by (auto simp: cleaned_lines_def clean_line_tidy)

lemma clean_text_idem: "clean_text (clean_text t) = clean_text t"
  by (simp add: clean_text_lines [of t] clean_text_join cleaned_lines_tidy)

lemma splitlines_clean_text: "splitlines (clean_text t) = cleaned_lines t"
proof -
  have "\<forall>l\<in>set (cleaned_lines t). l \<noteq> [] \<and> (\<forall>c\<in>set l. \<not> is_linebreak c)"
    using cleaned_lines_tidy [of _ t] by (auto simp: tidy_line_def trimmed_def list_all_iff)
  then show ?thesis unfolding clean_text_lines by (rule splitlines_join)
qed

lemma clean_text_chars:
  "13 \<notin> set (clean_text t) \<and> 9 \<notin> set (clean_text t) \<and> no_double_space (clean_text t)"
proof -
  have "\<forall>l\<in>set (cleaned_lines t). 13 \<notin> set l \<and> 9 \<notin> set l \<and> no_double_space l"
    using cleaned_lines_tidy [of _ t] by (auto simp: tidy_line_def list_all_iff is_linebreak_def)
  then show ?thesis
    using set_join [of "[10]" "cleaned_lines t"] no_double_space_join [of "cleaned_lines t"]
    unfolding clean_text_lines by auto
qed

subsection \<open>Cleaned text\<close>

lemma extract_text_Inr:
  "extract_text X fs p = Inr r \<Longrightarrow> \<exists>t. r = clean_text t"
  by (auto simp: extract_text_def Let_def split: if_splits sum.splits)

lemma clean_text_tidy: "list_all tidy_line (splitlines (clean_text t))"
  by (simp add: splitlines_clean_text list_all_iff cleaned_lines_tidy)

lemma clean_text_join_lines: "clean_text t = join [10] (splitlines (clean_text t))"
  unfolding splitlines_clean_text by (rule clean_text_lines)

lemma extract_txt_notes:
  "extract_txt notes_fs (u ''notes.TXT'') = Inr [97, 9, 98, 32, 32, 10, 10, 32, 32, 99, 32, 10]"
  by (simp add: extract_txt_def read_file_def notes_fs_def encodings_def codecs_lookup_def
      universal_newlines_def replace_CR replace_CRLF_no_CR
      utf8_next_def)

lemma splitext_notes: "str_lower plain_externals (snd (splitext (u ''notes.TXT''))) = u ''.txt''"
  by (simp add: splitext_def rfind_def u_def str_lower_def ascii_lower_def)

lemma clean_text_example:
  "clean_text [97, 9, 98, 32, 32, 10, 10, 32, 32, 99, 32, 10] = u ''a b'' @ [10] @ u ''c''"
  by (simp add: clean_text_def clean_line_def strip_def splitlines_def replace_CR replace_CRLF_no_CR
      is_linebreak_def is_blank_def is_whitespace_def u_def)

lemma notes_exists: "os_path_exists notes_fs (u ''notes.TXT'')"
  by (simp add: os_path_exists_def notes_fs_def)

lemma extract_text_notes:
  "extract_text plain_externals notes_fs (u ''notes.TXT'') = Inr [97, 32, 98, 10, 99]"
proof -
  have "u ''.txt'' \<noteq> u ''.pdf''" "u ''.txt'' \<noteq> u ''.docx''" by (simp_all add: u_def)
  then have "extract_text plain_externals notes_fs (u ''notes.TXT'') =
      Inr (u ''a b'' @ [10] @ u ''c'')"
    using notes_exists
    by (simp add: extract_text_def splitext_notes extract_txt_notes clean_text_example)
  then show ?thesis by (simp add: u_def)
qed



text \<open>
  C10. Cleaning is idempotent, and every result of \<open>extract_text\<close> is a fixed point of it:
  it has no carriage return, no tab, no two consecutive spaces, and it is the join by
  newlines of its lines, none of which is empty, contains a line boundary or has white space
  at either end.
\<close>

theorem clean_text_idempotent:
  "clean_text (clean_text t) = clean_text t \<and>
   (extract_text X fs p = Inr r \<longrightarrow>
      clean_text r = r \<and> 13 \<notin> set r \<and> 9 \<notin> set r \<and> no_double_space r \<and>
      r = join [10] (splitlines r) \<and> list_all tidy_line (splitlines r))"
proof (intro conjI impI)
  show "clean_text (clean_text t) = clean_text t" by (rule clean_text_idem)
next
  assume "extract_text X fs p = Inr r"
  then obtain t' where r: "r = clean_text t'" using extract_text_Inr by blast
  show "clean_text r = r" unfolding r by (rule clean_text_idem)
  show "13 \<notin> set r" "9 \<notin> set r" "no_double_space r"
    unfolding r using clean_text_chars [of t'] by simp_all
  show "r = join [10] (splitlines r)" unfolding r by (rule clean_text_join_lines)
  show "list_all tidy_line (splitlines r)" unfolding r by (rule clean_text_tidy)
qed

theorem clean_text_idempotent_witness:
  "clean_text (clean_text [32, 97, 9, 13, 10, 13, 98, 32]) = clean_text [32, 97, 9, 13, 10, 13, 98, 32] \<and>
   extract_text plain_externals notes_fs (u ''notes.TXT'') = Inr [97, 32, 98, 10, 99] \<and>
   clean_text [97, 32, 98, 10, 99] = [97, 32, 98, 10, 99] \<and>
   splitlines [97, 32, 98, 10, 99] = [[97, 32, 98], [99]] \<and>
   list_all tidy_line [[97, 32, 98], [99]]"
proof -
  have x: "extract_text plain_externals notes_fs (u ''notes.TXT'') = Inr [97, 32, 98, 10, 99]"
    by (rule extract_text_notes)
  have s: "splitlines [97, 32, 98, 10, 99] = [[97, 32, 98], [99]]"
    by (simp add: splitlines_def is_linebreak_def)
  show ?thesis
    using clean_text_idempotent [of "[32, 97, 9, 13, 10, 13, 98, 32]" plain_externals notes_fs
        "u ''notes.TXT''" "[97, 32, 98, 10, 99]"] x s
    by simp
qed

section \<open>Properties of the extraction\<close>

lemma read_file_exists:
  "os_path_exists fs p \<Longrightarrow> read_file fs p \<noteq> Inl (FileNotFoundError m)"
  by (auto simp: os_path_exists_def read_file_def split: option.splits node.splits)

lemma extract_pdf_exists:
  "os_path_exists fs p \<Longrightarrow> extract_pdf X fs p \<noteq> Inl (FileNotFoundError m)"
  by (auto simp: extract_pdf_def os_path_exists_def split: option.splits sum.splits)

lemma extract_docx_exists:
  "os_path_exists fs p \<Longrightarrow> extract_docx X fs p \<noteq> Inl (FileNotFoundError m)"
  by (auto simp: extract_docx_def os_path_exists_def split: option.splits sum.splits)

lemma extract_txt_exists:
  "os_path_exists fs p \<Longrightarrow> extract_txt fs p \<noteq> Inl (FileNotFoundError m)"
  using read_file_exists [of fs p m]
  by (auto simp: extract_txt_def split: option.splits sum.splits)

lemma extract_text_exists:
  "os_path_exists fs p \<Longrightarrow> extract_text X fs p \<noteq> Inl (FileNotFoundError m)"
  using extract_pdf_exists [of fs p X m] extract_docx_exists [of fs p X m]
    extract_txt_exists [of fs p m]
  by (auto simp: extract_text_def Let_def split: sum.splits)

lemma extract_text_missing:
  "\<not> os_path_exists fs p \<Longrightarrow>
   extract_text X fs p = Inl (FileNotFoundError (u ''File not found: '' @ p))"
  by (simp add: extract_text_def)

lemma extract_text_unsupported:
  "os_path_exists fs p \<Longrightarrow> ext = str_lower X (snd (splitext p)) \<Longrightarrow>
   ext \<noteq> u ''.pdf'' \<Longrightarrow> ext \<noteq> u ''.docx'' \<Longrightarrow> ext \<noteq> u ''.txt'' \<Longrightarrow>
   extract_text X fs p = Inl (ValueError (unsupported_message ext))"
  by (simp add: extract_text_def)

text \<open>
  C6. \<open>extract_text\<close> fails with \<open>FileNotFoundError\<close> exactly when the path does not
  exist, whatever its extension; for an existing path whose lower-cased extension is none of
  \<open>.pdf\<close>, \<open>.docx\<close>, \<open>.txt\<close> it fails with a \<open>ValueError\<close> whose message quotes that
  extension. (An exception raised inside pdfplumber or python-docx is a \<open>LibraryError\<close>.)
\<close>

theorem extract_text_errors:
  "((\<exists>m. extract_text X fs p = Inl (FileNotFoundError m)) \<longleftrightarrow> \<not> os_path_exists fs p) \<and>
   (\<not> os_path_exists fs p \<longrightarrow>
      extract_text X fs p = Inl (FileNotFoundError (u ''File not found: '' @ p))) \<and>
   (os_path_exists fs p \<and> ext = str_lower X (snd (splitext p)) \<and>
    ext \<noteq> u ''.pdf'' \<and> ext \<noteq> u ''.docx'' \<and> ext \<noteq> u ''.txt'' \<longrightarrow>
      extract_text X fs p =
        Inl (ValueError (u ''Unsupported file type '' @ [39] @ ext @ [39] @
                         u ''. Supported: .pdf, .docx, .txt'')))"
proof (intro conjI impI)
  show "(\<exists>m. extract_text X fs p = Inl (FileNotFoundError m)) \<longleftrightarrow> \<not> os_path_exists fs p"
    using extract_text_exists [of fs p X] extract_text_missing [of fs p X] by blast
next
  assume "\<not> os_path_exists fs p"
  then show "extract_text X fs p = Inl (FileNotFoundError (u ''File not found: '' @ p))"
    by (rule extract_text_missing)
next
  assume "os_path_exists fs p \<and> ext = str_lower X (snd (splitext p)) \<and>
    ext \<noteq> u ''.pdf'' \<and> ext \<noteq> u ''.docx'' \<and> ext \<noteq> u ''.txt''"
  then show "extract_text X fs p =
        Inl (ValueError (u ''Unsupported file type '' @ [39] @ ext @ [39] @
                         u ''. Supported: .pdf, .docx, .txt''))"
    using extract_text_unsupported [of fs p ext X] by (auto simp: unsupported_message_def)
qed

lemma photo_exists: "os_path_exists sample_fs (u ''photo.JPG'')"
  by (simp add: os_path_exists_def sample_fs_def)

lemma photo_ext: "str_lower plain_externals (snd (splitext (u ''photo.JPG''))) = u ''.jpg''"
  by (simp add: splitext_def rfind_def u_def str_lower_def ascii_lower_def)

lemma scan_missing: "\<not> os_path_exists sample_fs (u ''scan.jpg'')"
  by (simp add: os_path_exists_def sample_fs_def u_def)

theorem extract_text_errors_witness:
  "os_path_exists sample_fs (u ''photo.JPG'') \<and>
   str_lower plain_externals (snd (splitext (u ''photo.JPG''))) = u ''.jpg'' \<and>
   extract_text plain_externals sample_fs (u ''photo.JPG'') =
     Inl (ValueError (u ''Unsupported file type '' @ [39] @ u ''.jpg'' @ [39] @
                      u ''. Supported: .pdf, .docx, .txt'')) \<and>
   \<not> os_path_exists sample_fs (u ''scan.jpg'') \<and>
   extract_text plain_externals sample_fs (u ''scan.jpg'') =
     Inl (FileNotFoundError (u ''File not found: scan.jpg''))"
proof -
  have n: "u ''.jpg'' \<noteq> u ''.pdf''" "u ''.jpg'' \<noteq> u ''.docx''" "u ''.jpg'' \<noteq> u ''.txt''"
    by (simp_all add: u_def)
  have a: "extract_text plain_externals sample_fs (u ''photo.JPG'') =
     Inl (ValueError (u ''Unsupported file type '' @ [39] @ u ''.jpg'' @ [39] @
                      u ''. Supported: .pdf, .docx, .txt''))"
    using extract_text_errors [of plain_externals sample_fs "u ''photo.JPG''" "u ''.jpg''"]
      photo_exists photo_ext n by simp
  have b: "extract_text plain_externals sample_fs (u ''scan.jpg'') =
     Inl (FileNotFoundError (u ''File not found: '' @ u ''scan.jpg''))"
    using extract_text_errors [of plain_externals sample_fs "u ''scan.jpg''" "[]"] scan_missing
    by simp
  have c: "u ''File not found: '' @ u ''scan.jpg'' = u ''File not found: scan.jpg''"
    by (simp add: u_def)
  show ?thesis using a b photo_exists photo_ext scan_missing unfolding c by simp
qed

lemma try_encodings_utf8_latin1:
  "try_encodings codecs_lookup encodings data =
     Some (universal_newlines
       (case utf8_decode_strict data of Some s \<Rightarrow> s | None \<Rightarrow> map unat data))"
proof -
  have "u ''latin-1'' \<noteq> u ''utf-8''" by (simp add: u_def)
  then show ?thesis
    by (simp add: encodings_def codecs_lookup_def latin1_decode_def split: option.splits)
qed

lemma try_encodings_all_fail:
  "list_all (\<lambda>enc. case lookup enc of None \<Rightarrow> True | Some decode \<Rightarrow> decode data = None) encs \<Longrightarrow>
   try_encodings lookup encs data = None"
  by (induction encs) (auto split: option.splits)

lemma try_encodings_first:
  "list_all (\<lambda>enc. case lookup enc of None \<Rightarrow> True | Some decode \<Rightarrow> decode data = None) pre \<Longrightarrow>
   lookup enc = Some decode \<Longrightarrow> decode data = Some s \<Longrightarrow>
   try_encodings lookup (pre @ enc # post) data = Some (universal_newlines s)"
  by (induction pre) (auto split: option.splits)

text \<open>
  C7. For an existing file with a \<open>.txt\<close> extension \<open>extract_text\<close> returns a string,
  whatever the bytes: the encodings are tried in the order UTF-8, Latin-1, Windows-1252,
  ASCII, each strictly, and the permissive decoding follows when all fail. Latin-1 decodes
  every byte string, so the result is the cleaned UTF-8 text when the bytes are well-formed
  UTF-8 and the cleaned Latin-1 text otherwise.
\<close>

theorem extract_text_txt_never_fails:
  assumes "fs p = Some (File data)"
    and "str_lower X (snd (splitext p)) = u ''.txt''"
  shows "extract_text X fs p =
     Inr (clean_text (universal_newlines
       (case utf8_decode_strict data of Some s \<Rightarrow> s | None \<Rightarrow> map unat data)))"
proof -
  have "u ''.txt'' \<noteq> u ''.pdf''" "u ''.txt'' \<noteq> u ''.docx''" by (simp_all add: u_def)
  moreover have "extract_txt fs p =
      Inr (universal_newlines
        (case utf8_decode_strict data of Some s \<Rightarrow> s | None \<Rightarrow> map unat data))"
    using assms(1) by (simp add: extract_txt_def read_file_def try_encodings_utf8_latin1)
  ultimately show ?thesis
    using assms by (simp add: extract_text_def os_path_exists_def)
qed

lemma latin_file: "sample_fs (u ''latin.txt'') = Some (File [99, 97, 102, 233])"
  by (simp add: sample_fs_def u_def)

lemma latin_ext: "str_lower plain_externals (snd (splitext (u ''latin.txt''))) = u ''.txt''"
  by (simp add: splitext_def rfind_def u_def str_lower_def ascii_lower_def)

lemma latin_not_utf8: "utf8_decode_strict [99, 97, 102, 233] = None"
  by (simp add: utf8_next_def utf8_step3_def is_cont_def)

lemma clean_text_latin: "clean_text [99, 97, 102, 233] = [99, 97, 102, 233]"
  by (simp add: clean_text_def clean_line_def strip_def splitlines_def replace_CR replace_CRLF_no_CR
      is_linebreak_def is_blank_def is_whitespace_def)

theorem extract_text_txt_never_fails_witness:
  "sample_fs (u ''latin.txt'') = Some (File [99, 97, 102, 233]) \<and>
   str_lower plain_externals (snd (splitext (u ''latin.txt''))) = u ''.txt'' \<and>
   utf8_decode_strict [99, 97, 102, 233] = None \<and>
   extract_text plain_externals sample_fs (u ''latin.txt'') = Inr [99, 97, 102, 233]"
  using extract_text_txt_never_fails [where fs = sample_fs and p = "u ''latin.txt''"
      and data = "[99, 97, 102, 233]" and X = plain_externals] latin_file latin_ext
    latin_not_utf8 clean_text_latin
  by (simp add: universal_newlines_def replace_CR replace_CRLF_no_CR)

lemma hash_chunks_all: "0 < n \<Longrightarrow> hash_chunks n rest fed = fed @ rest"
proof (induction n rest fed rule: hash_chunks.induct)
  case (1 n rest fed)
  show ?case
  proof (cases "take n rest = []")
    case True
    then have "rest = []" using "1.prems" by simp
    then show ?thesis by (subst hash_chunks.simps) simp
  next
    case False
    then have "hash_chunks n (drop n rest) (sha256_update fed (take n rest)) =
        sha256_update fed (take n rest) @ drop n rest"
      using 1 by simp
    then show ?thesis using False by (subst hash_chunks.simps) (simp add: sha256_update_def)
  qed
qed

lemma hex_digit_lower: "n < 16 \<Longrightarrow> is_lower_hex (hex_digit n)"
  by (auto simp: is_lower_hex_def hex_digit_def)

lemma hexdigest_length: "length (hexdigest w) = 64"
  by (simp add: hexdigest_def)

lemma hexdigest_lower: "list_all is_lower_hex (hexdigest w)"
  by (simp add: hexdigest_def list_all_iff hex_digit_lower)

lemma file_hash_File: "fs p = Some (File data) \<Longrightarrow> file_hash X fs p = Inr (hexdigest (sha256 X data))"
  by (simp add: file_hash_def read_file_def hash_chunks_all)

text \<open>
  C4. \<open>file_hash\<close> of a file is the 64 lowercase hexadecimal digits of the SHA-256 digest
  of its bytes: reading in blocks of 65536 bytes feeds the hash object the whole content, so
  the value depends on the bytes alone, not on the path, the extension or the extraction
  libraries.
\<close>

theorem file_hash_content:
  assumes "fs p = Some (File data)"
  shows "file_hash X fs p = Inr (hexdigest (sha256 X data)) \<and>
         hash_chunks 65536 data [] = data \<and>
         length (hexdigest (sha256 X data)) = 64 \<and>
         list_all is_lower_hex (hexdigest (sha256 X data)) \<and>
         (\<forall>X' fs' p'. fs' p' = Some (File data) \<and> sha256 X' = sha256 X \<longrightarrow>
            file_hash X' fs' p' = file_hash X fs p)"
  using assms by (simp add: file_hash_File hash_chunks_all hexdigest_length hexdigest_lower)

lemma copy_file: "sample_fs (u ''copy.pdf'') = Some (File [99, 97, 102, 233])"
  by (simp add: sample_fs_def u_def)

theorem file_hash_content_witness:
  "sample_fs (u ''latin.txt'') = Some (File [99, 97, 102, 233]) \<and>
   sample_fs (u ''copy.pdf'') = Some (File [99, 97, 102, 233]) \<and>
   file_hash plain_externals sample_fs (u ''latin.txt'') = Inr (hexdigest 4) \<and>
   file_hash (plain_externals\<lparr>pdfplumber_open := Some (\<lambda>node. Inr [])\<rparr>) sample_fs (u ''copy.pdf'') =
     file_hash plain_externals sample_fs (u ''latin.txt'') \<and>
   length (hexdigest 4) = 64"
  using file_hash_content [where fs = sample_fs and p = "u ''latin.txt''"
      and data = "[99, 97, 102, 233]" and X = plain_externals] latin_file copy_file
  by (simp add: plain_externals_def)

section \<open>Properties of the serialization\<close>

subsection \<open>Reading back what the header writes\<close>

lemma strip_prefix_append: "strip_prefix p (p @ s) = Some s"
  by (induction p) auto

lemma show_nat_digits: "list_all is_digit (show_nat n)"
proof (induction n rule: show_nat.induct)
  case (1 n)
  show ?case
  proof (cases "n < 10")
    case True
    then show ?thesis by (subst show_nat.simps) (simp add: is_digit_def)
  next
    case False
    have "n mod 10 < 10" by simp
    then have "is_digit (48 + n mod 10)" unfolding is_digit_def by linarith
    then show ?thesis using False 1 by (subst show_nat.simps) simp
  qed
qed

lemma show_nat_nonempty: "show_nat n \<noteq> []"
  by (subst show_nat.simps) simp

lemma digits_value_snoc: "digits_value (ds @ [d]) = 10 * digits_value ds + (d - 48)"
  by (simp add: digits_value_def)

lemma digits_value_show_nat: "digits_value (show_nat n) = n"
proof (induction n rule: show_nat.induct)
  case (1 n)
  show ?case
  proof (cases "n < 10")
    case True
    then show ?thesis by (subst show_nat.simps) (simp add: digits_value_def)
  next
    case False
    then show ?thesis using 1 by (subst show_nat.simps) (simp add: digits_value_snoc)
  qed
qed

lemma takeWhile_digits:
  "\<not> is_digit c \<Longrightarrow> takeWhile is_digit (show_nat n @ c # s) = show_nat n"
  using show_nat_digits [of n] by (simp add: list_all_iff takeWhile_append2)

lemma dropWhile_digits:
  "\<not> is_digit c \<Longrightarrow> dropWhile is_digit (show_nat n @ c # s) = c # s"
  using show_nat_digits [of n] by (simp add: list_all_iff dropWhile_append2)

lemma read_nat_show: "\<not> is_digit c \<Longrightarrow> read_nat (show_nat n @ c # s) = Some (n, c # s)"
  by (simp add: read_nat_def takeWhile_digits dropWhile_digits show_nat_nonempty
      digits_value_show_nat)

lemma strip_prefix_show_nat: "\<not> is_digit c \<Longrightarrow> strip_prefix [c] (show_nat n @ s) = None"
  using show_nat_digits [of n] show_nat_nonempty [of n]
  by (cases "show_nat n") auto

lemma not_digit: "\<not> is_digit 41" "\<not> is_digit 44" "\<not> is_digit 32" "\<not> is_digit 39"
  by (simp_all add: is_digit_def)

lemma parse_more_join:
  "parse_more (join [44, 32] (map show_nat (d # ds)) @ 41 # r) = Some (d # ds, r)"
proof (induction ds arbitrary: d)
  case Nil
  show ?case by (subst parse_more.simps) (simp add: read_nat_show not_digit)
next
  case (Cons e es)
  have "parse_more (show_nat d @ 44 # 32 # join [44, 32] (map show_nat (e # es)) @ 41 # r) =
        Some (d # e # es, r)"
    using Cons [of e] by (subst parse_more.simps) (simp add: read_nat_show not_digit)
  then show ?case by simp
qed

lemma parse_tuple_body: "parse_tuple (tuple_body shape @ r) = Some (shape, r)"
proof (cases shape)
  case Nil
  then show ?thesis by (simp add: parse_tuple_def)
next
  case (Cons d ds)
  show ?thesis
  proof (cases ds)
    case Nil
    then show ?thesis
      using Cons by (simp add: parse_tuple_def strip_prefix_show_nat read_nat_show not_digit)
  next
    case (Cons e es)
    have "parse_more (join [44, 32] (map show_nat (e # es)) @ 41 # r) = Some (e # es, r)"
      by (rule parse_more_join)
    then show ?thesis
      using Cons \<open>shape = d # ds\<close>
      by (simp add: parse_tuple_def strip_prefix_show_nat read_nat_show not_digit)
  qed
qed


lemma key_fortran_order_hd: "key_fortran_order = 39 # tl key_fortran_order"
  by (simp add: key_fortran_order_def)

lemma show_nat_no_quote: "39 \<notin> set (show_nat n)"
  using show_nat_digits [of n] not_digit by (auto simp: list_all_iff)

lemma descr_no_quote: "39 \<notin> set (descr dt)"
proof (cases dt)
  case (Numeric bo k n)
  then show ?thesis by (cases bo; cases k) (simp_all add: show_nat_no_quote)
next
  case ObjectDtype
  then show ?thesis by simp
qed

lemma takeWhile_descr:
  "takeWhile (\<lambda>c. c \<noteq> 39) (descr dt @ key_fortran_order @ s) = descr dt"
proof -
  have "takeWhile (\<lambda>c. c \<noteq> 39) (descr dt @ 39 # tl key_fortran_order @ s) = descr dt"
  proof -
    have "\<forall>c\<in>set (descr dt). c \<noteq> 39" using descr_no_quote [of dt] by auto
    then show ?thesis by (simp add: takeWhile_append2)
  qed
  then show ?thesis using key_fortran_order_hd by (metis append_Cons)
qed

lemma dropWhile_descr:
  "dropWhile (\<lambda>c. c \<noteq> 39) (descr dt @ key_fortran_order @ s) = key_fortran_order @ s"
proof -
  have "dropWhile (\<lambda>c. c \<noteq> 39) (descr dt @ 39 # tl key_fortran_order @ s) =
        39 # tl key_fortran_order @ s"
  proof -
    have "\<forall>c\<in>set (descr dt). c \<noteq> 39" using descr_no_quote [of dt] by auto
    then show ?thesis by (simp add: dropWhile_append2)
  qed
  then show ?thesis using key_fortran_order_hd by (metis append_Cons)
qed

lemma parse_bool_repr: "parse_bool (repr_bool b @ s) = Some (b, s)"
proof (cases b)
  case True
  then show ?thesis by (simp add: parse_bool_def repr_bool_def strip_prefix_append)
next
  case False
  have "strip_prefix (u ''True'') (u ''False'' @ s) = None" by (simp add: u_def)
  then show ?thesis using False by (simp add: parse_bool_def repr_bool_def strip_prefix_append)
qed

lemma dropWhile_spaces: "dropWhile (\<lambda>c. c = 32) (replicate k 32 @ [10]) = [10::nat]"
  by (induction k) simp_all

lemma parse_header_dict:
  "parse_header (header_dict a @ replicate k 32 @ [10]) =
     Some (descr (arr_dtype a), arr_fortran a, arr_shape a)"
  by (simp add: parse_header_def header_dict_def strip_prefix_append takeWhile_descr
      dropWhile_descr parse_bool_repr parse_tuple_body dropWhile_spaces)

lemma parse_descr_descr: "valid_dtype dt \<Longrightarrow> parse_descr (descr dt) = Some dt"
proof (cases dt)
  case ObjectDtype
  then show ?thesis by (simp add: parse_descr_def)
next
  case (Numeric bo k n)
  assume v: "valid_dtype dt"
  have bo: "parse_byteorder (byteorder_char bo) = Some bo"
    by (cases bo) (simp_all add: parse_byteorder_def)
  have k: "parse_kind (kind_char k) = Some k"
    by (cases k) (simp_all add: parse_kind_def)
  have "kind_char k \<noteq> 79" by (cases k) simp_all
  then have "descr dt \<noteq> [124, 79]" using Numeric by simp
  then show ?thesis
    using v Numeric bo k show_nat_digits [of n] show_nat_nonempty [of n]
    by (simp add: parse_descr_def digits_value_show_nat)
qed

subsection \<open>The round trip\<close>

lemma show_nat_length: "0 < k \<Longrightarrow> n < 10 ^ k \<Longrightarrow> length (show_nat n) \<le> k"
proof (induction k arbitrary: n)
  case 0
  then show ?case by simp
next
  case (Suc k)
  show ?case
  proof (cases "n < 10")
    case True
    then show ?thesis by (subst show_nat.simps) simp
  next
    case False
    then have k: "0 < k" using Suc.prems by (cases k) auto
    have "n < 10 * 10 ^ k" using Suc.prems by simp
    then have "n div 10 < 10 ^ k" by (simp add: less_mult_imp_div_less mult.commute)
    then have "length (show_nat (n div 10)) \<le> k" using Suc.IH k by simp
    then show ?thesis using False by (subst show_nat.simps) simp
  qed
qed

lemma show_nat_dim: "d < 9223372036854775808 \<Longrightarrow> length (show_nat d) \<le> 19"
  using show_nat_length [of 19 d] by simp

lemma join_length:
  "list_all (\<lambda>x. length x \<le> m) xs \<Longrightarrow> length (join sep xs) \<le> (m + length sep) * length xs"
  by (induction sep xs rule: join.induct) (simp_all add: algebra_simps)

lemma tuple_body_length:
  assumes "list_all (\<lambda>d. d < 9223372036854775808) ds"
  shows "length (tuple_body ds) \<le> 21 * length ds + 1"
proof -
  have all: "list_all (\<lambda>x. length x \<le> 19) (map show_nat ds)"
    using assms by (simp add: list_all_iff show_nat_dim)
  show ?thesis
  proof (cases ds)
    case Nil
    then show ?thesis by simp
  next
    case (Cons d es)
    show ?thesis
    proof (cases es)
      case Nil
      then show ?thesis using assms Cons show_nat_dim [of d] by simp
    next
      case (Cons e fs)
      have "length (join [44, 32] (map show_nat ds)) \<le> (19 + 2) * length ds"
        using join_length [OF all, of "[44, 32]"] by simp
      then show ?thesis using Cons \<open>ds = d # es\<close> by simp
    qed
  qed
qed

lemma descr_length: "valid_dtype dt \<Longrightarrow> length (descr dt) \<le> 4"
proof (cases dt)
  case ObjectDtype
  then show ?thesis by simp
next
  case (Numeric bo k n)
  assume "valid_dtype dt"
  then have "n < 10 ^ 2" using Numeric by (cases k) auto
  then have "length (show_nat n) \<le> 2" using show_nat_length [of 2 n] by simp
  then show ?thesis using Numeric by simp
qed

lemma header_text_length:
  assumes "valid_ndarray a"
  shows "length (header_text a) \<le> 1421"
proof -
  have d: "length (descr (arr_dtype a)) \<le> 4"
    using assms by (simp add: valid_ndarray_def descr_length)
  have "length (tuple_body (arr_shape a)) \<le> 21 * length (arr_shape a) + 1"
    using assms tuple_body_length [of "arr_shape a"] by (simp add: valid_ndarray_def)
  moreover have "length (arr_shape a) \<le> 64" using assms by (simp add: valid_ndarray_def)
  ultimately have t: "length (tuple_body (arr_shape a)) \<le> 1345" by simp
  have b: "length (repr_bool (arr_fortran a)) \<le> 5" by (simp add: repr_bool_def u_def)
  have g: "growth_padding a \<le> 21" by (simp add: growth_padding_def)
  have k: "length key_descr = 11" "length key_fortran_order = 20" "length key_shape = 12"
    "length dict_end = 3"
    by (simp_all add: key_descr_def key_fortran_order_def key_shape_def dict_end_def u_def)
  show ?thesis using d t b g k by (simp add: header_text_def header_dict_def)
qed

lemma join_all:
  "list_all P sep \<Longrightarrow> list_all (list_all P) xs \<Longrightarrow> list_all P (join sep xs)"
  by (induction sep xs rule: join.induct) simp_all

lemma digit_latin1: "is_digit c \<Longrightarrow> c < 256"
  by (simp add: is_digit_def)

lemma show_nat_latin1: "list_all (\<lambda>c. c < 256) (show_nat n)"
  using show_nat_digits [of n] by (auto simp: list_all_iff digit_latin1)

lemma tuple_body_latin1: "list_all (\<lambda>c. c < 256) (tuple_body ds)"
proof (cases ds)
  case Nil
  then show ?thesis by simp
next
  case (Cons d es)
  show ?thesis
  proof (cases es)
    case Nil
    then show ?thesis using Cons by (simp add: show_nat_latin1)
  next
    case (Cons e fs)
    have "list_all (list_all (\<lambda>c. c < 256)) (map show_nat ds)"
      by (induction ds) (simp_all add: show_nat_latin1)
    then have "list_all (\<lambda>c. c < 256) (join [44, 32] (map show_nat ds))"
      by (simp add: join_all)
    then show ?thesis using Cons \<open>ds = d # es\<close> by simp
  qed
qed

lemma descr_latin1: "list_all (\<lambda>c. c < 256) (descr dt)"
proof (cases dt)
  case ObjectDtype
  then show ?thesis by simp
next
  case (Numeric bo k n)
  then show ?thesis by (cases bo; cases k) (simp_all add: show_nat_latin1)
qed

lemma header_text_latin1: "list_all (\<lambda>c. c < 256) (header_text a)"
proof -
  have "list_all (\<lambda>c. c < 256) key_descr" "list_all (\<lambda>c. c < 256) key_fortran_order"
    "list_all (\<lambda>c. c < 256) key_shape" "list_all (\<lambda>c. c < 256) dict_end"
    "list_all (\<lambda>c. c < 256) (repr_bool (arr_fortran a))"
    by (simp_all add: key_descr_def key_fortran_order_def key_shape_def dict_end_def
        repr_bool_def u_def)
  then show ?thesis
    using descr_latin1 [of "arr_dtype a"] tuple_body_latin1 [of "arr_shape a"]
    by (auto simp: header_text_def header_dict_def list_all_iff)
qed

lemma length_le_bytes: "length (le_bytes k n) = k"
  by (induction k arbitrary: n) simp_all

lemma le_value_le_bytes: "n < 256 ^ k \<Longrightarrow> le_value (le_bytes k n) = n"
proof (induction k arbitrary: n)
  case 0
  then show ?case by simp
next
  case (Suc k)
  have "n < 256 * 256 ^ k" using Suc.prems by simp
  then have "n div 256 < 256 ^ k" by (simp add: less_mult_imp_div_less mult.commute)
  then have "le_value (le_bytes k (n div 256)) = n div 256" by (rule Suc.IH)
  moreover have "unat (word_of_nat (n mod 256) :: 8 word) = n mod 256"
    by (simp add: unat_of_nat)
  ultimately show ?case by simp
qed

lemma map_unat_of_nat:
  "list_all (\<lambda>c. c < 256) s \<Longrightarrow> map unat (map word_of_nat s :: bytes) = s"
  by (induction s) (simp_all add: unat_of_nat)

lemma read_array_v1:
  assumes "list_all (\<lambda>c. c < 256) h" and "length h + 1 + pad \<le> 10000"
  shows "read_array (MAGIC_PREFIX @ [1, 0] @ le_bytes 2 (length h + 1 + pad) @
           map word_of_nat h @ replicate pad 32 @ [10] @ data) =
         array_from_header (h @ replicate pad 32 @ [10]) data"
proof -
  define lb where "lb = le_bytes 2 (length h + 1 + pad)"
  define hb :: bytes where "hb = map word_of_nat h @ replicate pad 32 @ [10]"
  have len: "length lb = 2" by (simp add: lb_def length_le_bytes)
  have v: "le_value lb = length h + 1 + pad"
    using assms(2) by (simp add: lb_def le_value_le_bytes)
  have lhb: "length hb = length h + 1 + pad" by (simp add: hb_def)
  have "map unat hb = h @ replicate pad 32 @ [10]"
    using map_unat_of_nat [OF assms(1)] by (simp add: hb_def)
  then have dec: "latin1_decode hb = Some (h @ replicate pad 32 @ [10])"
    by (simp add: latin1_decode_def)
  have blob: "MAGIC_PREFIX @ [1, 0] @ le_bytes 2 (length h + 1 + pad) @
           map word_of_nat h @ replicate pad 32 @ [10] @ data =
        147 # 78 # 85 # 77 # 80 # 89 # 1 # 0 # (lb @ hb @ data)"
    by (simp add: MAGIC_PREFIX_def lb_def hb_def)
  have "read_array (147 # 78 # 85 # 77 # 80 # 89 # 1 # 0 # (lb @ hb @ data)) =
        array_from_header (h @ replicate pad 32 @ [10]) data"
    using assms(2)
    by (simp add: read_array_def Let_def len v lhb dec decode_header_def MAX_HEADER_SIZE_def)
  then show ?thesis by (simp only: blob)
qed

lemma wrap_header_v1:
  "\<exists>pad\<le>64. wrap_header 1 2 h =
     MAGIC_PREFIX @ [1, 0] @ le_bytes 2 (length h + 1 + pad) @
     map word_of_nat h @ replicate pad 32 @ [10]"
proof -
  define pad where "pad = 64 - ((8 + 2 + (length h + 1)) mod 64)"
  have "wrap_header 1 2 h =
     MAGIC_PREFIX @ [1, 0] @ le_bytes 2 (length h + 1 + pad) @
     map word_of_nat h @ replicate pad 32 @ [10]"
    unfolding wrap_header_def Let_def pad_def [symmetric] by simp
  moreover have "pad \<le> 64" by (simp add: pad_def)
  ultimately show ?thesis by blast
qed

lemma np_save_v1:
  assumes "valid_ndarray a"
  shows "np_save a = Inr (wrap_header 1 2 (header_text a) @ arr_data a)"
proof -
  have "length (header_text a) \<le> 1421" using assms by (rule header_text_length)
  then have "wrapped_length 2 (header_text a) < 65536"
    by (simp add: wrapped_length_def Let_def)
  then show ?thesis by (simp add: np_save_def write_array_header_def)
qed

lemma array_from_header_text:
  assumes "valid_ndarray a" and "arr_dtype a \<noteq> ObjectDtype"
  shows "array_from_header (header_text a @ replicate pad 32 @ [10]) (arr_data a) =
         Inr (NdArray a)"
proof -
  obtain bo k n where dt: "arr_dtype a = Numeric bo k n"
    using assms(2) by (cases "arr_dtype a") auto
  have ht: "header_text a @ replicate pad 32 @ [10] =
              header_dict a @ replicate (growth_padding a + pad) 32 @ [10]"
    by (simp add: header_text_def replicate_add)
  have h: "parse_header (header_text a @ replicate pad 32 @ [10]) =
           Some (descr (arr_dtype a), arr_fortran a, arr_shape a)"
    unfolding ht by (rule parse_header_dict)
  have d: "parse_descr (descr (arr_dtype a)) = Some (Numeric bo k n)"
    using assms(1) dt parse_descr_descr [of "arr_dtype a"] by (simp add: valid_ndarray_def)
  have l: "length (arr_data a) = prod_list (arr_shape a) * n"
    using assms(1) dt by (simp add: valid_ndarray_def)
  have "a = \<lparr>arr_dtype = Numeric bo k n, arr_shape = arr_shape a,
             arr_fortran = arr_fortran a, arr_data = arr_data a\<rparr>"
    using dt by simp
  then show ?thesis using l by (simp add: array_from_header_def h d)
qed

lemma np_load_magic:
  "np_load (MAGIC_PREFIX @ rest) = read_array (MAGIC_PREFIX @ rest)"
  by (simp add: np_load_def MAGIC_PREFIX_def)

lemma np_load_np_save:
  assumes "valid_ndarray a" and "arr_dtype a \<noteq> ObjectDtype"
  shows "\<exists>blob. np_save a = Inr blob \<and> np_load blob = Inr (NdArray a)"
proof -
  let ?h = "header_text a"
  obtain pad where p: "pad \<le> 64" and w: "wrap_header 1 2 ?h =
     MAGIC_PREFIX @ [1, 0] @ le_bytes 2 (length ?h + 1 + pad) @
     map word_of_nat ?h @ replicate pad 32 @ [10]"
    using wrap_header_v1 [of ?h] by blast
  have l: "length ?h \<le> 1421" using assms(1) by (rule header_text_length)
  then have small: "length ?h + 1 + pad \<le> 10000" using p by simp
  have "np_load (wrap_header 1 2 ?h @ arr_data a) =
        read_array (MAGIC_PREFIX @ [1, 0] @ le_bytes 2 (length ?h + 1 + pad) @
           map word_of_nat ?h @ replicate pad 32 @ [10] @ arr_data a)"
    unfolding w by (simp add: np_load_magic)
  also have "\<dots> = array_from_header (?h @ replicate pad 32 @ [10]) (arr_data a)"
    using header_text_latin1 [of a] small by (rule read_array_v1)
  also have "\<dots> = Inr (NdArray a)" using assms by (rule array_from_header_text)
  finally show ?thesis using np_save_v1 [OF assms(1)] by simp
qed

text \<open>An object array is written as a pickle and refused on reading.\<close>

lemma np_load_object_array:
  assumes "valid_ndarray a" and "arr_dtype a = ObjectDtype"
  shows "\<exists>blob. np_save a = Inr blob \<and> np_load blob = Inl object_refused"
proof -
  let ?h = "header_text a"
  obtain pad where p: "pad \<le> 64" and w: "wrap_header 1 2 ?h =
     MAGIC_PREFIX @ [1, 0] @ le_bytes 2 (length ?h + 1 + pad) @
     map word_of_nat ?h @ replicate pad 32 @ [10]"
    using wrap_header_v1 [of ?h] by blast
  have l: "length ?h \<le> 1421" using assms(1) by (rule header_text_length)
  then have small: "length ?h + 1 + pad \<le> 10000" using p by simp
  have ht: "?h @ replicate pad 32 @ [10] =
              header_dict a @ replicate (growth_padding a + pad) 32 @ [10]"
    by (simp add: header_text_def replicate_add)
  have h: "parse_header (?h @ replicate pad 32 @ [10]) =
           Some (descr (arr_dtype a), arr_fortran a, arr_shape a)"
    unfolding ht by (rule parse_header_dict)
  have "np_load (wrap_header 1 2 ?h @ arr_data a) =
        read_array (MAGIC_PREFIX @ [1, 0] @ le_bytes 2 (length ?h + 1 + pad) @
           map word_of_nat ?h @ replicate pad 32 @ [10] @ arr_data a)"
    unfolding w by (simp add: np_load_magic)
  also have "\<dots> = array_from_header (?h @ replicate pad 32 @ [10]) (arr_data a)"
    using header_text_latin1 [of a] small by (rule read_array_v1)
  also have "\<dots> = Inl object_refused"
    using assms(2) by (simp add: array_from_header_def h parse_descr_def)
  finally show ?thesis using np_save_v1 [OF assms(1)] by simp
qed

text \<open>The vector of two \<open>float32\<close> values gives the 128 bytes of header that NumPy
  writes for it, with the header length 118, and the 8 bytes of its elements.\<close>

lemma show_nat_small: "n < 10 \<Longrightarrow> show_nat n = [48 + n]"
  by (subst show_nat.simps) simp

lemma header_text_float32_pair:
  "header_text float32_pair =
     key_descr @ u ''<f4'' @ key_fortran_order @ u ''False'' @ key_shape @ u ''2,)'' @
     dict_end @ replicate 20 32"
  by (simp add: header_text_def header_dict_def float32_pair_def growth_padding_def
      repr_bool_def show_nat_small u_def)

lemma length_header_text_float32_pair: "length (header_text float32_pair) = 77"
  by (simp add: header_text_float32_pair key_descr_def key_fortran_order_def key_shape_def
      dict_end_def u_def)

lemma np_save_float32_pair:
  "np_save float32_pair =
     Inr (MAGIC_PREFIX @ [1, 0, 118, 0] @ map word_of_nat (header_text float32_pair) @
          replicate 40 32 @ [10] @ [0, 0, 128, 63, 0, 0, 0, 64])"
  by (simp add: np_save_def write_array_header_def wrapped_length_def wrap_header_def Let_def
      length_header_text_float32_pair numeral_2_eq_2)
    (simp add: float32_pair_def)

text \<open>
  C2. For every numeric array \<open>V\<close> that NumPy can hold, of any shape and any numeric
  dtype, \<open>serialize_embedding\<close> returns bytes, and \<open>deserialize_embedding\<close> of these
  bytes returns \<open>V\<close> itself: the same dtype, the same shape, the same order of storage and
  the same bytes of the elements.
\<close>

theorem embedding_round_trip:
  assumes "valid_ndarray V" and "arr_dtype V \<noteq> ObjectDtype"
  shows "\<exists>blob. serialize_embedding np_save V = Inr blob \<and>
           deserialize_embedding np_load blob = Inr (NdArray V)"
  using np_load_np_save [OF assms]
  by (simp add: serialize_embedding_def deserialize_embedding_def)

theorem embedding_round_trip_witness:
  "valid_ndarray float32_pair \<and> arr_dtype float32_pair \<noteq> ObjectDtype \<and>
   (\<exists>blob. serialize_embedding np_save float32_pair = Inr blob \<and> length blob = 136 \<and>
      deserialize_embedding np_load blob = Inr (NdArray float32_pair))"
proof -
  have v: "valid_ndarray float32_pair" "arr_dtype float32_pair \<noteq> ObjectDtype"
    by (simp_all add: float32_pair_def valid_ndarray_def)
  obtain blob where b: "serialize_embedding np_save float32_pair = Inr blob"
    "deserialize_embedding np_load blob = Inr (NdArray float32_pair)"
    using embedding_round_trip [OF v] by blast
  have "length blob = 136"
    using b(1)
    by (auto simp: serialize_embedding_def np_save_float32_pair
        length_header_text_float32_pair MAGIC_PREFIX_def)
  then show ?thesis using v b by blast
qed

section \<open>Properties of the document store\<close>

lemma init_db_idem: "init_db (init_db db) = init_db db"
  by (simp add: init_db_def split: option.splits)

lemma init_db_funpow: "(init_db ^^ Suc n) db = init_db db"
  by (induction n) (simp_all add: init_db_idem)

lemma init_db_schema: "documents (init_db db) \<noteq> None \<and> idx_hash (init_db db)"
  by (simp add: init_db_def split: option.splits)

lemma init_db_keeps:
  "documents db = Some rows \<Longrightarrow>
   documents (init_db db) = Some rows \<and> sqlite_sequence (init_db db) = sqlite_sequence db"
  by (simp add: init_db_def)

text \<open>
  C9. \<open>init_db\<close> is idempotent: from any state, calling it again (any number of times)
  gives the state that one call gives, with the table and the index \<open>idx_hash\<close> in place,
  and a call on an existing table leaves its rows and its row counter as they are.
\<close>

theorem init_db_idempotent:
  "init_db (init_db db) = init_db db \<and>
   (init_db ^^ Suc n) db = init_db db \<and>
   documents (init_db db) \<noteq> None \<and> idx_hash (init_db db) \<and>
   (documents db = Some rows \<longrightarrow>
      documents (init_db db) = Some rows \<and> sqlite_sequence (init_db db) = sqlite_sequence db)"
  using init_db_idem [of db] init_db_funpow [of n db] init_db_schema [of db]
    init_db_keeps [of db rows]
  by blast

theorem init_db_idempotent_witness:
  "documents two_docs_db = Some two_rows \<and>
   (init_db ^^ 3) two_docs_db = init_db two_docs_db \<and>
   documents (init_db two_docs_db) = Some two_rows \<and>
   init_db (init_db fresh_db) = \<lparr>documents = Some [], sqlite_sequence = 0, idx_hash = True\<rparr>"
proof -
  have a: "documents two_docs_db = Some two_rows" by (simp add: two_docs_db_def)
  have b: "init_db fresh_db = \<lparr>documents = Some [], sqlite_sequence = 0, idx_hash = True\<rparr>"
    by (simp add: init_db_def fresh_db_def)
  have c: "(3::nat) = Suc 2" by simp
  show ?thesis
    using init_db_idempotent [of two_docs_db 2 two_rows] init_db_idempotent [of fresh_db 0 "[]"] a b
    unfolding c by simp
qed

lemma fold_max_ge: "a \<le> fold max xs (a::nat) \<and> (\<forall>x\<in>set xs. x \<le> fold max xs a)"
proof (induction xs arbitrary: a)
  case Nil
  show ?case by simp
next
  case (Cons y ys)
  have "max y a \<le> fold max ys (max y a)" using Cons [of "max y a"] by blast
  then show ?case using Cons [of "max y a"] by auto
qed




lemma insert_document_rows:
  "save e = Inr blob \<Longrightarrow> documents db = Some rows \<Longrightarrow> bind_parameters p t h fsize = None \<Longrightarrow>
   insert_document save db p t h e fsize mtime =
     Inr (db\<lparr>documents := Some (filter (\<lambda>r. doc_path r \<noteq> p) rows @
            [\<lparr>doc_id = Suc (fold max (map doc_id rows) (sqlite_sequence db)), doc_path = p,
              doc_text = t, doc_hash = h, doc_embedding = blob,
              doc_file_size = fsize, doc_modified_time = sqlite_real mtime\<rparr>]),
          sqlite_sequence := Suc (fold max (map doc_id rows) (sqlite_sequence db))\<rparr>)"
  by (simp add: insert_document_def serialize_embedding_def Let_def)

lemma insert_document_Inr:
  assumes "documents db = Some rows"
    and "insert_document save db p t h e fsize mtime = Inr db'"
  shows "\<exists>blob. save e = Inr blob \<and> bind_parameters p t h fsize = None \<and>
     db' = db\<lparr>documents := Some (filter (\<lambda>r. doc_path r \<noteq> p) rows @
            [\<lparr>doc_id = Suc (fold max (map doc_id rows) (sqlite_sequence db)), doc_path = p,
              doc_text = t, doc_hash = h, doc_embedding = blob,
              doc_file_size = fsize, doc_modified_time = sqlite_real mtime\<rparr>]),
          sqlite_sequence := Suc (fold max (map doc_id rows) (sqlite_sequence db))\<rparr>"
  using assms
  by (auto simp: insert_document_def serialize_embedding_def Let_def
      split: sum.splits option.splits)





lemma two_docs_rows: "documents two_docs_db = Some two_rows"
  by (simp add: two_docs_db_def)



lemma ascii_encodable: "list_all (\<lambda>c. c < 128) s \<Longrightarrow> utf8_encodable s"
  by (auto simp: utf8_encodable_def is_surrogate_def list_all_iff list_ex_iff)





lemma find_sorted_least:
  "sorted (map f ys) \<Longrightarrow> find P ys = Some r \<Longrightarrow> \<forall>y\<in>set ys. P y \<longrightarrow> f r \<le> f y"
proof (induction ys)
  case Nil
  then show ?case by simp
next
  case (Cons y ys)
  show ?case
  proof (cases "P y")
    case True
    then have "r = y" using Cons.prems(2) by simp
    then show ?thesis using Cons.prems(1) by auto
  next
    case False
    then show ?thesis using Cons by auto
  qed
qed

lemma find_sort_key_None: "find P (sort_key f xs) = None \<longleftrightarrow> \<not> list_ex P xs"
  by (auto simp: find_None_iff list_ex_iff)

lemma find_Some_mem: "find P ys = Some r \<Longrightarrow> r \<in> set ys \<and> P r"
  by (induction ys) (auto split: if_splits)

lemma find_sort_key_Some:
  assumes "find P (sort_key f xs) = Some r"
  shows "r \<in> set xs \<and> P r \<and> (\<forall>y\<in>set xs. P y \<longrightarrow> f r \<le> f y)"
proof -
  have "r \<in> set (sort_key f xs) \<and> P r"
    using assms by (rule find_Some_mem)
  moreover have "\<forall>y\<in>set (sort_key f xs). P y \<longrightarrow> f r \<le> f y"
    using find_sorted_least [of f "sort_key f xs" P r] assms by simp
  ultimately show ?thesis by simp
qed

lemma check_existing_hash_None:
  "documents db = Some rows \<Longrightarrow>
   check_existing_hash db h = Inr None \<longleftrightarrow> \<not> list_ex (\<lambda>r. doc_hash r = h) rows"
  by (simp add: check_existing_hash_def find_sort_key_None)

lemma check_existing_hash_Some:
  assumes "documents db = Some rows" and "check_existing_hash db h = Inr (Some p)"
  shows "\<exists>r\<in>set rows. doc_hash r = h \<and> doc_path r = p \<and>
           (\<forall>r'\<in>set rows. doc_hash r' = h \<longrightarrow> doc_id r \<le> doc_id r')"
proof -
  obtain r where r: "find (\<lambda>r. doc_hash r = h) (sort_key doc_id rows) = Some r" "doc_path r = p"
    using assms by (auto simp: check_existing_hash_def)
  show ?thesis
    using find_sort_key_Some [OF r(1)] r(2) by blast
qed

lemma check_existing_hash_total:
  "documents db = Some rows \<Longrightarrow> \<exists>res. check_existing_hash db h = Inr res"
  by (simp add: check_existing_hash_def)

lemma two_inserts_first:
  assumes "documents db = Some rows"
    and "\<not> list_ex (\<lambda>r. doc_hash r = h) rows"
    and "p1 \<noteq> p2"
    and "insert_document save db p1 t1 h e1 s1 m1 = Inr db1"
    and "insert_document save db1 p2 t2 h e2 s2 m2 = Inr db2"
  shows "check_existing_hash db2 h = Inr (Some p1)"
proof -
  let ?i1 = "Suc (fold max (map doc_id rows) (sqlite_sequence db))"
  obtain blob1 where b1: "db1 = db\<lparr>documents := Some (filter (\<lambda>r. doc_path r \<noteq> p1) rows @
            [\<lparr>doc_id = ?i1, doc_path = p1, doc_text = t1, doc_hash = h, doc_embedding = blob1,
              doc_file_size = s1, doc_modified_time = sqlite_real m1\<rparr>]),
          sqlite_sequence := ?i1\<rparr>"
    using insert_document_Inr [OF assms(1,4)] by blast
  let ?r1 = "\<lparr>doc_id = ?i1, doc_path = p1, doc_text = t1, doc_hash = h,
              doc_embedding = blob1, doc_file_size = s1, doc_modified_time = sqlite_real m1\<rparr>"
  let ?rows1 = "filter (\<lambda>r. doc_path r \<noteq> p1) rows @ [?r1]"
  have d1: "documents db1 = Some ?rows1" "sqlite_sequence db1 = ?i1"
    using b1 by auto
  let ?i2 = "Suc (fold max (map doc_id ?rows1) (sqlite_sequence db1))"
  obtain blob2 where b2: "db2 = db1\<lparr>documents := Some (filter (\<lambda>r. doc_path r \<noteq> p2) ?rows1 @
            [\<lparr>doc_id = ?i2, doc_path = p2, doc_text = t2, doc_hash = h, doc_embedding = blob2,
              doc_file_size = s2, doc_modified_time = sqlite_real m2\<rparr>]),
          sqlite_sequence := ?i2\<rparr>"
    using insert_document_Inr [OF d1(1) assms(5)] by blast
  let ?r2 = "\<lparr>doc_id = ?i2, doc_path = p2, doc_text = t2, doc_hash = h,
              doc_embedding = blob2, doc_file_size = s2, doc_modified_time = sqlite_real m2\<rparr>"
  let ?rows2 = "filter (\<lambda>r. doc_path r \<noteq> p2) ?rows1 @ [?r2]"
  have d2: "documents db2 = Some ?rows2"
    using b2 by auto
  have lt: "?i1 < ?i2"
    using fold_max_ge [of "sqlite_sequence db1" "map doc_id ?rows1"] d1(2) by simp
  have old: "\<forall>r\<in>set rows. doc_hash r \<noteq> h" using assms(2) by (simp add: list_ex_iff)
  have mem: "\<forall>r\<in>set ?rows2. doc_hash r = h \<longrightarrow> r = ?r1 \<or> r = ?r2"
    using old by auto
  have in1: "?r1 \<in> set ?rows2" using assms(3) by simp
  then have "list_ex (\<lambda>r. doc_hash r = h) ?rows2" unfolding list_ex_iff by force
  then have "check_existing_hash db2 h \<noteq> Inr None"
    using check_existing_hash_None [OF d2, of h] by simp
  then obtain p where p: "check_existing_hash db2 h = Inr (Some p)"
    using check_existing_hash_total [OF d2, of h] by (metis option.exhaust)
  obtain r where r: "r \<in> set ?rows2" "doc_hash r = h" "doc_path r = p"
      "\<forall>r'\<in>set ?rows2. doc_hash r' = h \<longrightarrow> doc_id r \<le> doc_id r'"
    using check_existing_hash_Some [OF d2 p] by blast
  have "doc_id r \<le> ?i1" using r(4) in1 by force
  then have "r \<noteq> ?r2" using lt by auto
  then have "r = ?r1" using mem r(1,2) by blast
  then show ?thesis using p r(3) by simp
qed

lemma insert_document_new_id:
  assumes "documents db = Some rows"
    and "insert_document save db p t h e s m = Inr db'"
  shows "\<forall>r\<in>set rows. \<forall>r'\<in>set (rows_at db' p). doc_id r < doc_id r'"
proof -
  let ?i = "Suc (fold max (map doc_id rows) (sqlite_sequence db))"
  have le: "\<forall>r\<in>set rows. doc_id r < ?i"
    using fold_max_ge [of "sqlite_sequence db" "map doc_id rows"] by (simp add: less_Suc_eq_le)
  obtain blob where "rows_at db' p = [\<lparr>doc_id = ?i, doc_path = p, doc_text = t, doc_hash = h,
      doc_embedding = blob, doc_file_size = s, doc_modified_time = sqlite_real m\<rparr>]"
    using insert_document_Inr [OF assms] by (auto simp: rows_at_def rows_of_def)
  then show ?thesis using le by simp
qed

text \<open>
  C8. \<open>check_existing_hash\<close> returns \<open>None\<close> exactly when no row has the hash; otherwise
  it returns the path of the row with the least \<open>id\<close> among the rows with that hash. An
  insert gives its row an \<open>id\<close> above all ids in the table, so that row is the one inserted
  earliest; after two inserts with the same new hash at different paths the query returns
  the first path.
\<close>

theorem check_existing_hash_first:
  assumes "documents db = Some rows"
  shows "(check_existing_hash db h = Inr None \<longleftrightarrow> \<not> list_ex (\<lambda>r. doc_hash r = h) rows) \<and>
         (check_existing_hash db h = Inr (Some p) \<longrightarrow>
            (\<exists>r\<in>set rows. doc_hash r = h \<and> doc_path r = p \<and>
               (\<forall>r'\<in>set rows. doc_hash r' = h \<longrightarrow> doc_id r \<le> doc_id r'))) \<and>
         (insert_document save db p1 t1 h1 e1 s1 m1 = Inr db1 \<longrightarrow>
            (\<forall>r\<in>set rows. \<forall>r'\<in>set (rows_at db1 p1). doc_id r < doc_id r')) \<and>
         (\<not> list_ex (\<lambda>r. doc_hash r = h) rows \<and> p1 \<noteq> p2 \<and>
          insert_document save db p1 t1 h e1 s1 m1 = Inr db1 \<and>
          insert_document save db1 p2 t2 h e2 s2 m2 = Inr db2 \<longrightarrow>
            check_existing_hash db2 h = Inr (Some p1))"
  using check_existing_hash_None [OF assms, of h] check_existing_hash_Some [OF assms, of h p]
    insert_document_new_id [OF assms, of save p1 t1 h1 e1 s1 m1 db1]
    two_inserts_first [OF assms, of h p1 p2 save t1 e1 s1 m1 db1 t2 e2 s2 m2 db2]
  by blast

lemma insert_document_table:
  "save e = Inr blob \<Longrightarrow> documents db = Some rows \<Longrightarrow> bind_parameters p t h s = None \<Longrightarrow>
   \<exists>db'. insert_document save db p t h e s m = Inr db' \<and> documents db' \<noteq> None"
  using insert_document_rows [of save e blob db rows p t h s m] by simp

lemma bind_same:
  "bind_parameters (u ''c.txt'') (u ''same'') (u ''h0'') None = None"
  "bind_parameters (u ''d.txt'') (u ''same'') (u ''h0'') None = None"
  by (simp_all add: bind_parameters_def ascii_encodable u_def)

lemma byte_save_5: "byte_save 5 = Inr [5]"
  by (simp add: byte_save_def)

theorem check_existing_hash_first_witness:
  "documents two_docs_db = Some two_rows \<and>
   check_existing_hash two_docs_db (u ''h2'') = Inr (Some (u ''b.txt'')) \<and>
   check_existing_hash two_docs_db (u ''h0'') = Inr None \<and>
   \<not> list_ex (\<lambda>r. doc_hash r = u ''h0'') two_rows \<and> u ''c.txt'' \<noteq> u ''d.txt'' \<and>
   (\<exists>db1 db2.
      insert_document byte_save two_docs_db (u ''c.txt'') (u ''same'') (u ''h0'') 5 None None = Inr db1 \<and>
      insert_document byte_save db1 (u ''d.txt'') (u ''same'') (u ''h0'') 5 None None = Inr db2 \<and>
      check_existing_hash db2 (u ''h0'') = Inr (Some (u ''c.txt'')))"
proof -
  have none: "\<not> list_ex (\<lambda>r. doc_hash r = u ''h0'') two_rows"
    by (simp add: two_rows_def u_def)
  have ne: "u ''c.txt'' \<noteq> u ''d.txt''" by (simp add: u_def)
  have b: "check_existing_hash two_docs_db (u ''h2'') = Inr (Some (u ''b.txt''))"
    by (simp add: check_existing_hash_def two_docs_db_def two_rows_def u_def)
  obtain db1 where db1:
    "insert_document byte_save two_docs_db (u ''c.txt'') (u ''same'') (u ''h0'') 5 None None = Inr db1"
    "documents db1 \<noteq> None"
    using insert_document_table [of byte_save 5 "[5]" two_docs_db two_rows "u ''c.txt''"
        "u ''same''" "u ''h0''" None None] byte_save_5 two_docs_rows bind_same(1) by blast
  then obtain rows1 where "documents db1 = Some rows1" by blast
  then obtain db2 where db2:
    "insert_document byte_save db1 (u ''d.txt'') (u ''same'') (u ''h0'') 5 None None = Inr db2"
    using insert_document_table [of byte_save 5 "[5]" db1 rows1 "u ''d.txt''"
        "u ''same''" "u ''h0''" None None] byte_save_5 bind_same(2) by blast
  have "check_existing_hash two_docs_db (u ''h0'') = Inr None \<and>
        check_existing_hash db2 (u ''h0'') = Inr (Some (u ''c.txt''))"
    using check_existing_hash_first [where db = two_docs_db and rows = two_rows and h = "u ''h0''"
        and ?p1.0 = "u ''c.txt''" and ?p2.0 = "u ''d.txt''" and save = byte_save
        and ?t1.0 = "u ''same''" and ?t2.0 = "u ''same''" and ?e1.0 = 5 and ?e2.0 = 5
        and ?s1.0 = None and ?s2.0 = None and ?m1.0 = None and ?m2.0 = None
        and ?db1.0 = db1 and ?db2.0 = db2]
      two_docs_rows none ne db1(1) db2
    by blast
  then show ?thesis using two_docs_rows none ne b db1(1) db2 by blast
qed

section \<open>Properties of the indexing pipeline\<close>

lemma is_file_data: "is_file fs p \<Longrightarrow> \<exists>data. fs p = Some (File data)"
  by (auto simp: is_file_def split: option.splits node.splits)


lemma scenario_hash:
  "valid_txt X fs p \<or> corrupt_pdf X fs p \<Longrightarrow> \<exists>h. file_hash X fs p = Inr h"
  using is_file_data [of fs p] file_hash_File [of fs p _ X]
  by (auto simp: valid_txt_def corrupt_pdf_def)












































lemma decode_letters:
  "utf8_decode_strict [97] = Some [97]"
  "utf8_decode_strict [98, 98] = Some [98, 98]"
  "utf8_decode_strict [99, 99, 99] = Some [99, 99, 99]"
  "utf8_decode_strict [100, 100, 100, 100] = Some [100, 100, 100, 100]"
  by (simp_all add: utf8_next_def)

















end
